theory Spec2Isabelle
  imports Main
begin

section \<open>JSON values, \<open>JSON.stringify\<close> and \<open>JSON.parse\<close>\<close>

text \<open>
  The records of the application are plain JavaScript objects that travel through
  \<open>JSON.stringify\<close> and \<open>JSON.parse\<close>.  A value is a JSON tree.  An object is the list
  of its properties in enumeration order, which for keys that are not array indices is
  insertion order.  Numbers are integers: the model covers the safe integers of
  JavaScript, on which the decimal text and the number determine each other.  A
  character is a code unit below 256.
\<close>

datatype json =
    JNull
  | JBool bool
  | JNum int
  | JStr string
  | JArr "json list"
  | JObj "(string \<times> json) list"

abbreviation (input) dquote :: char where "dquote \<equiv> CHR 0x22"
abbreviation (input) backslash :: char where "backslash \<equiv> CHR 0x5C"

subsection \<open>Serialisation\<close>

text \<open>
  \<open>JSON.stringify(value)\<close> without indentation: an integer prints in decimal, a string is
  quoted with the escapes of \<open>QuoteJSONString\<close> (the quote, the backslash, the short
  escapes for backspace, form feed, line feed, carriage return and tab, the four-digit
  hexadecimal escape in lower case for the other control characters), elements and
  members are joined by commas.
\<close>

definition digit_char :: "nat \<Rightarrow> char" where
  "digit_char d = char_of (48 + d)"

fun show_nat :: "nat \<Rightarrow> string" where
  "show_nat n = (if n < 10 then [digit_char n] else show_nat (n div 10) @ [digit_char (n mod 10)])"

declare show_nat.simps [simp del]

definition show_int :: "int \<Rightarrow> string" where
  "show_int i = (if i < 0 then CHR ''-'' # show_nat (nat (- i)) else show_nat (nat i))"

definition hex_digit :: "nat \<Rightarrow> char" where
  "hex_digit d = (if d < 10 then char_of (48 + d) else char_of (87 + d))"

definition escape_char :: "char \<Rightarrow> string" where
  "escape_char c =
     (if c = dquote then [backslash, dquote]
      else if c = backslash then [backslash, backslash]
      else if c = CHR 0x08 then [backslash, CHR ''b'']
      else if c = CHR 0x0C then [backslash, CHR ''f'']
      else if c = CHR 0x0A then [backslash, CHR ''n'']
      else if c = CHR 0x0D then [backslash, CHR ''r'']
      else if c = CHR 0x09 then [backslash, CHR ''t'']
      else if (of_char c :: nat) < 32 then
        [backslash, CHR ''u'', CHR ''0'', CHR ''0'',
         hex_digit ((of_char c :: nat) div 16), hex_digit ((of_char c :: nat) mod 16)]
      else [c])"

definition quote :: "string \<Rightarrow> string" where
  "quote s = dquote # concat (map escape_char s) @ [dquote]"

fun join_comma :: "string list \<Rightarrow> string" where
  "join_comma [] = []"
| "join_comma [x] = x"
| "join_comma (x # y # ys) = x @ CHR '','' # join_comma (y # ys)"

fun JSON_stringify :: "json \<Rightarrow> string" where
  "JSON_stringify JNull = ''null''"
| "JSON_stringify (JBool b) = (if b then ''true'' else ''false'')"
| "JSON_stringify (JNum n) = show_int n"
| "JSON_stringify (JStr s) = quote s"
| "JSON_stringify (JArr vs) = CHR ''['' # join_comma (map JSON_stringify vs) @ '']''"
| "JSON_stringify (JObj ms) =
     CHR ''{'' # join_comma (map (\<lambda>m. quote (fst m) @ CHR '':'' # JSON_stringify (snd m)) ms) @ ''}''"

subsection \<open>Parsing\<close>

text \<open>
  \<open>JSON.parse(text)\<close> either returns a value or throws a \<open>SyntaxError\<close>.  The model
  answers \<open>Unsupported\<close> where the text leaves it: a number with a fraction or an
  exponent or beyond the safe integers, a hexadecimal escape above code unit 255, an
  object key made of digits (JavaScript enumerates array-index keys first).
\<close>

datatype parse_error = SyntaxError | Unsupported | Exhausted

definition is_ws :: "char \<Rightarrow> bool" where
  "is_ws c = (c = CHR '' '' \<or> c = CHR 0x09 \<or> c = CHR 0x0A \<or> c = CHR 0x0D)"

definition skip_ws :: "string \<Rightarrow> string" where
  "skip_ws s = dropWhile is_ws s"

definition is_digit :: "char \<Rightarrow> bool" where
  "is_digit c = (48 \<le> (of_char c :: nat) \<and> (of_char c :: nat) \<le> 57)"

definition digit_val :: "char \<Rightarrow> nat" where
  "digit_val c = (of_char c :: nat) - 48"

definition digits_val :: "string \<Rightarrow> int" where
  "digits_val ds = foldl (\<lambda>a c. 10 * a + int (digit_val c)) 0 ds"

definition hex_val :: "char \<Rightarrow> nat option" where
  "hex_val c =
     (let n = (of_char c :: nat) in
      if 48 \<le> n \<and> n \<le> 57 then Some (n - 48)
      else if 97 \<le> n \<and> n \<le> 102 then Some (n - 87)
      else if 65 \<le> n \<and> n \<le> 70 then Some (n - 55)
      else None)"

definition unescape :: "char \<Rightarrow> char option" where
  "unescape e =
     (if e = dquote then Some dquote
      else if e = backslash then Some backslash
      else if e = CHR ''/'' then Some (CHR ''/'')
      else if e = CHR ''b'' then Some (CHR 0x08)
      else if e = CHR ''f'' then Some (CHR 0x0C)
      else if e = CHR ''n'' then Some (CHR 0x0A)
      else if e = CHR ''r'' then Some (CHR 0x0D)
      else if e = CHR ''t'' then Some (CHR 0x09)
      else None)"

definition cons_result :: "char \<Rightarrow> parse_error + (string \<times> string) \<Rightarrow> parse_error + (string \<times> string)" where
  "cons_result c r = (case r of Inl e \<Rightarrow> Inl e | Inr (s, rest) \<Rightarrow> Inr (c # s, rest))"

definition hex4 :: "string \<Rightarrow> nat option" where
  "hex4 s =
     (case map hex_val (take 4 s) of
        [Some a, Some b, Some x, Some y] \<Rightarrow> Some (((a * 16 + b) * 16 + x) * 16 + y)
      | _ \<Rightarrow> None)"

fun parse_chars :: "string \<Rightarrow> parse_error + (string \<times> string)" where
  "parse_chars [] = Inl SyntaxError"
| "parse_chars (c # cs) =
     (if c = dquote then Inr ([], cs)
      else if c = backslash then
        (case cs of
           [] \<Rightarrow> Inl SyntaxError
         | e # cs1 \<Rightarrow>
             if e = CHR ''u'' then
               (case hex4 cs1 of
                  None \<Rightarrow> Inl SyntaxError
                | Some n \<Rightarrow>
                    if n < 256 then cons_result (char_of n) (parse_chars (drop 4 cs1))
                    else Inl Unsupported)
             else
               (case unescape e of
                  None \<Rightarrow> Inl SyntaxError
                | Some d \<Rightarrow> cons_result d (parse_chars cs1)))
      else if (of_char c :: nat) < 32 then Inl SyntaxError
      else cons_result c (parse_chars cs))"

definition parse_number :: "string \<Rightarrow> parse_error + (int \<times> string)" where
  "parse_number s =
     (let neg = (s \<noteq> [] \<and> hd s = CHR ''-'');
          s1 = (if neg then tl s else s);
          ds = takeWhile is_digit s1;
          rest = dropWhile is_digit s1
      in if ds = [] then Inl SyntaxError
         else if hd ds = CHR ''0'' \<and> 1 < length ds then Inl SyntaxError
         else if rest \<noteq> [] \<and> (hd rest = CHR ''.'' \<or> hd rest = CHR ''e'' \<or> hd rest = CHR ''E'')
           then Inl Unsupported
         else if 2 ^ 53 - 1 < digits_val ds then Inl Unsupported
         else Inr (if neg then - digits_val ds else digits_val ds, rest))"

definition parse_literal :: "string \<Rightarrow> json \<Rightarrow> string \<Rightarrow> parse_error + (json \<times> string)" where
  "parse_literal lit v s =
     (if take (length lit) s = lit then Inr (v, drop (length lit) s) else Inl SyntaxError)"

text \<open>
  Assigning a property that exists keeps its place and replaces its value; a new one is
  appended.  This is what \<open>JSON.parse\<close> does with a repeated key.
\<close>

definition numeric_key :: "string \<Rightarrow> bool" where
  "numeric_key k = (k \<noteq> [] \<and> list_all is_digit k)"

definition obj_set :: "(string \<times> json) list \<Rightarrow> string \<Rightarrow> json \<Rightarrow> (string \<times> json) list" where
  "obj_set ms k v = (if k \<in> fst ` set ms then map (\<lambda>m. if fst m = k then (k, v) else m) ms else ms @ [(k, v)])"

text \<open>
  The recursive descent, with white space allowed around every token.  The first
  argument bounds the depth of the recursion; \<open>JSON_parse\<close> starts it above twice the
  length of the text, which is never used up (\<open>Exhausted\<close> is not an answer of
  \<open>JSON_parse\<close>, as shown below).
\<close>

fun parse_value :: "nat \<Rightarrow> string \<Rightarrow> parse_error + (json \<times> string)"
  and parse_elements :: "nat \<Rightarrow> json list \<Rightarrow> string \<Rightarrow> parse_error + (json \<times> string)"
  and parse_members :: "nat \<Rightarrow> (string \<times> json) list \<Rightarrow> string \<Rightarrow> parse_error + (json \<times> string)"
where
  "parse_value 0 s = Inl Exhausted"
| "parse_value (Suc n) s =
     (case skip_ws s of
        [] \<Rightarrow> Inl SyntaxError
      | c # cs \<Rightarrow>
          if c = CHR ''-'' \<or> is_digit c then
            (case parse_number (c # cs) of Inl e \<Rightarrow> Inl e | Inr (i, rest) \<Rightarrow> Inr (JNum i, rest))
          else if c = dquote then
            (case parse_chars cs of Inl e \<Rightarrow> Inl e | Inr (str, rest) \<Rightarrow> Inr (JStr str, rest))
          else if c = CHR ''n'' then parse_literal ''ull'' JNull cs
          else if c = CHR ''t'' then parse_literal ''rue'' (JBool True) cs
          else if c = CHR ''f'' then parse_literal ''alse'' (JBool False) cs
          else if c = CHR ''['' then
            (case skip_ws cs of
               [] \<Rightarrow> Inl SyntaxError
             | d # ds \<Rightarrow> if d = CHR '']'' then Inr (JArr [], ds) else parse_elements n [] (d # ds))
          else if c = CHR ''{'' then
            (case skip_ws cs of
               [] \<Rightarrow> Inl SyntaxError
             | d # ds \<Rightarrow> if d = CHR ''}'' then Inr (JObj [], ds) else parse_members n [] (d # ds))
          else Inl SyntaxError)"
| "parse_elements 0 acc s = Inl Exhausted"
| "parse_elements (Suc n) acc s =
     (case parse_value n s of
        Inl e \<Rightarrow> Inl e
      | Inr (v, rest) \<Rightarrow>
          (case skip_ws rest of
             [] \<Rightarrow> Inl SyntaxError
           | c # cs \<Rightarrow>
               if c = CHR '','' then parse_elements n (acc @ [v]) cs
               else if c = CHR '']'' then Inr (JArr (acc @ [v]), cs)
               else Inl SyntaxError))"
| "parse_members 0 acc s = Inl Exhausted"
| "parse_members (Suc n) acc s =
     (case skip_ws s of
        [] \<Rightarrow> Inl SyntaxError
      | q # s1 \<Rightarrow>
          if q \<noteq> dquote then Inl SyntaxError
          else
            (case parse_chars s1 of
               Inl e \<Rightarrow> Inl e
             | Inr (k, s2) \<Rightarrow>
                 if numeric_key k then Inl Unsupported
                 else
                   (case skip_ws s2 of
                      [] \<Rightarrow> Inl SyntaxError
                    | colon # s3 \<Rightarrow>
                        if colon \<noteq> CHR '':'' then Inl SyntaxError
                        else
                          (case parse_value n s3 of
                             Inl e \<Rightarrow> Inl e
                           | Inr (v, s4) \<Rightarrow>
                               (case skip_ws s4 of
                                  [] \<Rightarrow> Inl SyntaxError
                                | c # cs \<Rightarrow>
                                    if c = CHR '','' then parse_members n (obj_set acc k v) cs
                                    else if c = CHR ''}'' then Inr (JObj (obj_set acc k v), cs)
                                    else Inl SyntaxError)))))"

definition JSON_parse :: "string \<Rightarrow> parse_error + json" where
  "JSON_parse s =
     (case parse_value (2 * length s + 2) s of
        Inl e \<Rightarrow> Inl e
      | Inr (v, rest) \<Rightarrow> if skip_ws rest = [] then Inr v else Inl SyntaxError)"

text \<open>
  The trees that are JavaScript values of the model: numbers are safe integers, the keys
  of an object are distinct and none is made of digits.
\<close>

fun js_value :: "json \<Rightarrow> bool" where
  "js_value (JNum n) = (\<bar>n\<bar> \<le> 2 ^ 53 - 1)"
| "js_value (JArr vs) = list_all js_value vs"
| "js_value (JObj ms) =
     (distinct (map fst ms) \<and> list_all (\<lambda>m. \<not> numeric_key (fst m) \<and> js_value (snd m)) ms)"
| "js_value _ = True"

subsection \<open>Auxiliary notions for the round trip\<close>

text \<open>
  What may follow a serialised value inside a serialised text, what a serialised value
  starts with, and a bound on the recursion depth that parsing it back needs.
\<close>

definition value_end :: "string \<Rightarrow> bool" where
  "value_end rest = (rest = [] \<or> hd rest = CHR '','' \<or> hd rest = CHR '']'' \<or> hd rest = CHR ''}'')"

definition value_start :: "char \<Rightarrow> bool" where
  "value_start c = (\<not> is_ws c \<and> c \<noteq> CHR '']'' \<and> c \<noteq> CHR ''}'')"

fun weight :: "json \<Rightarrow> nat" where
  "weight (JArr vs) = Suc (sum_list (map (\<lambda>v. Suc (weight v)) vs))"
| "weight (JObj ms) = Suc (sum_list (map (\<lambda>m. Suc (weight (snd m))) ms))"
| "weight _ = 1"

section \<open>Browser values\<close>

text \<open>
  A \<open>Blob\<close> is a byte string; a \<open>File\<close> is a blob with a name and a media type.
  Characters of \<^typ>\<open>string\<close> stand for the code units of a JavaScript string.
\<close>

type_synonym blob = string

record File =
  name :: string
  ftype :: string
  bytes :: blob

section \<open>Document converter (app/lib/pdf2img.ts)\<close>

text \<open>\<open>PdfConversionResult\<close>: \<open>file\<close> (here \<open>res_file\<close>) is \<open>null\<close> (here \<open>None\<close>) on failure, \<open>error\<close> is optional.\<close>

record PdfConversionResult =
  imageUrl :: string
  res_file :: "File option"
  error :: "string option"

subsection \<open>The lazy loader \<open>loadPdfJs\<close>\<close>

text \<open>
  The module keeps three variables: \<open>pdfjsLib\<close>, \<open>isLoading\<close> and \<open>loadPromise\<close>.
  JavaScript runs one task at a time, so the observable behaviour is a sequence of
  atomic events: a caller enters \<open>loadPdfJs\<close> (the synchronous body runs to its
  \<open>return\<close>), the pending dynamic import fulfils (its \<open>then\<close> callback runs), or the pending
  import rejects (the callback does not run).  A promise is identified by the ordinal of
  the import that created it.  \<open>started\<close> counts executions of the \<open>import(...)\<close> expression
  and \<open>returned\<close> logs what each call handed back; both are ghost fields.
\<close>

type_synonym lib = nat

datatype promise_state = Pending | Fulfilled lib | Failed string

datatype load_result = Cached lib | Shared nat

record loader =
  pdfjsLib :: "lib option"
  isLoading :: bool
  loadPromise :: "(nat \<times> promise_state) option"
  started :: nat
  returned :: "load_result list"

datatype loader_event = CallLoad | ImportResolved lib | ImportRejected string

definition loader_init :: loader where
  "loader_init = \<lparr>pdfjsLib = None, isLoading = False, loadPromise = None, started = 0, returned = []\<rparr>"

text \<open>
  \<open>if (pdfjsLib) return pdfjsLib; if (loadPromise) return loadPromise;
  isLoading = true; loadPromise = import(...).then(...); return loadPromise;\<close>
\<close>

definition loadPdfJs :: "loader \<Rightarrow> loader" where
  "loadPdfJs m =
     (case pdfjsLib m of
        Some l \<Rightarrow> m\<lparr>returned := returned m @ [Cached l]\<rparr>
      | None \<Rightarrow>
          (case loadPromise m of
             Some (i, _) \<Rightarrow> m\<lparr>returned := returned m @ [Shared i]\<rparr>
           | None \<Rightarrow>
               m\<lparr>isLoading := True,
                 loadPromise := Some (Suc (started m), Pending),
                 started := Suc (started m),
                 returned := returned m @ [Shared (Suc (started m))]\<rparr>))"

text \<open>
  The \<open>then\<close> callback: \<open>pdfjsLib = lib; isLoading = false; return lib\<close>.  It runs only
  for a pending import; a settled promise never settles again.
\<close>

definition import_resolved :: "lib \<Rightarrow> loader \<Rightarrow> loader" where
  "import_resolved l m =
     (case loadPromise m of
        Some (i, Pending) \<Rightarrow> m\<lparr>pdfjsLib := Some l, isLoading := False, loadPromise := Some (i, Fulfilled l)\<rparr>
      | _ \<Rightarrow> m)"

definition import_rejected :: "string \<Rightarrow> loader \<Rightarrow> loader" where
  "import_rejected e m =
     (case loadPromise m of
        Some (i, Pending) \<Rightarrow> m\<lparr>loadPromise := Some (i, Failed e)\<rparr>
      | _ \<Rightarrow> m)"

fun loader_step :: "loader \<Rightarrow> loader_event \<Rightarrow> loader" where
  "loader_step m CallLoad = loadPdfJs m"
| "loader_step m (ImportResolved l) = import_resolved l m"
| "loader_step m (ImportRejected e) = import_rejected e m"

definition loader_run :: "loader_event list \<Rightarrow> loader" where
  "loader_run es = foldl loader_step loader_init es"

text \<open>
  A call's result comes from the one load when it is the promise of import 1, or the
  library that this promise was fulfilled with.
\<close>

fun from_single_load :: "promise_state \<Rightarrow> load_result \<Rightarrow> bool" where
  "from_single_load p (Shared i) = (i = 1)"
| "from_single_load p (Cached l) = (p = Fulfilled l)"

definition single_source :: "loader \<Rightarrow> bool" where
  "single_source m =
     (case loadPromise m of
        None \<Rightarrow> started m = 0 \<and> pdfjsLib m = None \<and> returned m = []
      | Some (i, p) \<Rightarrow>
          started m = 1 \<and> i = 1 \<and> (pdfjsLib m = None \<or> p = Fulfilled (the (pdfjsLib m))) \<and>
          list_all (from_single_load p) (returned m))"

subsection \<open>\<open>convertPdfToImage\<close>\<close>

text \<open>
  \<open>file.name.replace(/\.pdf$/i, "")\<close>.  The pattern is a literal dot followed by the
  letters p, d, f, each in either case (flag \<open>i\<close>; no character outside ASCII is
  canonicalised to an ASCII letter).  Without the \<open>m\<close> flag \<open>$\<close> matches only at the end
  of the input, so the only possible match is the last four code units, and it is
  replaced by the empty string.
\<close>

definition matches_pdf_ext :: "string \<Rightarrow> bool" where
  "matches_pdf_ext s =
     (case s of
        [c0, c1, c2, c3] \<Rightarrow>
          c0 = CHR ''.'' \<and> (c1 = CHR ''p'' \<or> c1 = CHR ''P'') \<and>
          (c2 = CHR ''d'' \<or> c2 = CHR ''D'') \<and> (c3 = CHR ''f'' \<or> c3 = CHR ''F'')
      | _ \<Rightarrow> False)"

definition replace_pdf_ext :: "string \<Rightarrow> string" where
  "replace_pdf_ext n =
     (if matches_pdf_ext (drop (length n - 4) n) then take (length n - 4) n else n)"

text \<open>
  \<open>URL.createObjectURL\<close> is the browser's: it returns a fresh URL of the \<open>blob:\<close> scheme.
  The unique part is supplied by the environment.
\<close>

definition createObjectURL :: "(blob \<Rightarrow> string) \<Rightarrow> blob \<Rightarrow> string" where
  "createObjectURL fresh b = ''blob:'' @ fresh b"

text \<open>
  Everything before \<open>canvas.toBlob\<close> (loading the library, reading the bytes, opening the
  document, rendering page 1) either throws, which the \<open>catch\<close> turns into a result, or
  reaches \<open>toBlob\<close>, whose callback receives a blob or \<open>null\<close>.
\<close>

datatype render_outcome = Throws string | ToBlob "blob option"

definition convertPdfToImage :: "(blob \<Rightarrow> string) \<Rightarrow> render_outcome \<Rightarrow> File \<Rightarrow> PdfConversionResult" where
  "convertPdfToImage fresh r f =
     (case r of
        ToBlob (Some b) \<Rightarrow>
          (let originalName = replace_pdf_ext (name f);
               imageFile = \<lparr>name = originalName @ ''.png'', ftype = ''image/png'', bytes = b\<rparr>
           in \<lparr>imageUrl = createObjectURL fresh b, res_file = Some imageFile, error = None\<rparr>)
      | ToBlob None \<Rightarrow>
          \<lparr>imageUrl = '''', res_file = None, error = Some ''Failed to create image blob''\<rparr>
      | Throws err \<Rightarrow>
          \<lparr>imageUrl = '''', res_file = None, error = Some (''Failed to convert PDF: '' @ err)\<rparr>)"

section \<open>Remote service facade (app/lib/puter.ts)\<close>

subsection \<open>Values exchanged with the backend\<close>

record PuterUser =
  user_uuid :: string
  username :: string

record FSItem =
  item_id :: string
  item_name :: string
  path :: string

record KVItem =
  kv_key :: string
  kv_value :: string

datatype kv_listing = Keys "string list" | Items "KVItem list"

datatype content_part = FilePart string | TextPart string

datatype message_content = Text string | Parts "content_part list"

record ChatMessage =
  role :: string
  content :: message_content

record AIResponse =
  message :: ChatMessage

record PuterChatOptions =
  model :: "string option"

datatype prompt = Prompt string | Messages "ChatMessage list"

datatype chat_arg = ImageURL string | ChatOptions PuterChatOptions

datatype payload = StringData string | FileData File | BlobData blob

datatype uploads = Files "File list" | Blobs "blob list"

text \<open>
  A promise settles: it is rejected with a thrown value (an \<open>Error\<close> carrying a message, or
  any other value) or resolved.
\<close>

datatype thrown = Error string | NonError

datatype 'a settled = Rejected thrown | Resolved 'a

subsection \<open>The backend \<open>window.puter\<close>\<close>

datatype bcall =
    AuthGetUser
  | AuthIsSignedIn
  | AuthSignIn
  | AuthSignOut
  | FsWrite string payload
  | FsRead string
  | FsUpload uploads
  | FsDelete string
  | FsReaddir string
  | AiChat prompt "chat_arg option" "bool option" "PuterChatOptions option"
  | AiImg2txt payload "bool option"
  | KvGet string
  | KvSet string string
  | KvDelete string
  | KvList string bool
  | KvFlush

text \<open>
  The backend is an opaque remote service.  Its answer to a call may depend on everything
  it was asked before, so each entry of the declared interface takes the list of earlier
  calls.  \<open>undefined\<close> and \<open>null\<close> results are \<open>None\<close>.  \<open>fs.upload\<close> is declared
  to resolve to an \<open>FSItem\<close>, but its callers test the resolved value at run time
  (\<open>if (!uploadedFile)\<close>), so the answer may also be no handle at all.
\<close>

record puter =
  auth_getUser :: "bcall list \<Rightarrow> PuterUser settled"
  auth_isSignedIn :: "bcall list \<Rightarrow> bool settled"
  auth_signIn :: "bcall list \<Rightarrow> unit settled"
  auth_signOut :: "bcall list \<Rightarrow> unit settled"
  fs_write :: "bcall list \<Rightarrow> string \<Rightarrow> payload \<Rightarrow> File option settled"
  fs_read :: "bcall list \<Rightarrow> string \<Rightarrow> blob settled"
  fs_upload :: "bcall list \<Rightarrow> uploads \<Rightarrow> FSItem option settled"
  fs_delete :: "bcall list \<Rightarrow> string \<Rightarrow> unit settled"
  fs_readdir :: "bcall list \<Rightarrow> string \<Rightarrow> FSItem list option settled"
  ai_chat :: "bcall list \<Rightarrow> prompt \<Rightarrow> chat_arg option \<Rightarrow> bool option \<Rightarrow> PuterChatOptions option
                \<Rightarrow> AIResponse option settled"
  ai_img2txt :: "bcall list \<Rightarrow> payload \<Rightarrow> bool option \<Rightarrow> string settled"
  kv_get :: "bcall list \<Rightarrow> string \<Rightarrow> string option settled"
  kv_set :: "bcall list \<Rightarrow> string \<Rightarrow> string \<Rightarrow> bool settled"
  kv_delete :: "bcall list \<Rightarrow> string \<Rightarrow> bool settled"
  kv_list :: "bcall list \<Rightarrow> string \<Rightarrow> bool \<Rightarrow> kv_listing settled"
  kv_flush :: "bcall list \<Rightarrow> bool settled"

subsection \<open>The store\<close>

text \<open>
  \<open>auth.getUser\<close> is a closure: the initial one reads the store, those installed by
  \<open>checkAuthStatus\<close>, \<open>signOut\<close> and \<open>refreshUser\<close> return the value they captured.
\<close>

datatype user_getter = FromStore | Captured "PuterUser option"

record auth_state =
  user :: "PuterUser option"
  isAuthenticated :: bool
  getUser :: user_getter

record PuterStore =
  isLoading :: bool
  error :: "string option"
  puterReady :: bool
  auth :: auth_state

text \<open>The operations exposed by the store, as the callers invoke them.\<close>

datatype facade_op =
    Fs_write string payload
  | Fs_read string
  | Fs_readDir string
  | Fs_upload uploads
  | Fs_delete string
  | Ai_chat prompt "chat_arg option" "bool option" "PuterChatOptions option"
  | Ai_feedback string string
  | Ai_img2txt payload "bool option"
  | Kv_get string
  | Kv_set string string
  | Kv_delete string
  | Kv_list string "bool option"
  | Kv_flush

text \<open>
  The trace is a ghost log of what was invoked, in order: calls of facade operations,
  calls that reached the backend, invocations of the document converter and
  navigations.
\<close>

datatype event = Facade facade_op | Backend bcall | Convert File | Navigate string

text \<open>
  The world: \<open>window.puter\<close> (absent until the script has loaded), the store, the timers
  armed by \<open>init\<close>, and the trace.  An async function is modelled run to completion.
\<close>

record world =
  window_puter :: "puter option"
  store :: PuterStore
  interval_active :: bool
  timeout_pending :: bool
  trace :: "event list"

definition initial_store :: PuterStore where
  "initial_store =
     \<lparr>isLoading = True, error = None, puterReady = False,
      auth = \<lparr>user = None, isAuthenticated = False, getUser = FromStore\<rparr>\<rparr>"

definition getPuter :: "world \<Rightarrow> puter option" where
  "getPuter w = window_puter w"

fun backend_calls :: "event list \<Rightarrow> bcall list" where
  "backend_calls [] = []"
| "backend_calls (Backend c # es) = c # backend_calls es"
| "backend_calls (_ # es) = backend_calls es"

fun facade_calls :: "event list \<Rightarrow> facade_op list" where
  "facade_calls [] = []"
| "facade_calls (Facade f # es) = f # facade_calls es"
| "facade_calls (_ # es) = facade_calls es"

fun convert_calls :: "event list \<Rightarrow> File list" where
  "convert_calls [] = []"
| "convert_calls (Convert f # es) = f # convert_calls es"
| "convert_calls (_ # es) = convert_calls es"

definition history :: "world \<Rightarrow> bcall list" where
  "history w = backend_calls (trace w)"

definition log :: "event \<Rightarrow> world \<Rightarrow> world" where
  "log e w = w\<lparr>trace := trace w @ [e]\<rparr>"

definition setError :: "string \<Rightarrow> world \<Rightarrow> world" where
  "setError msg w =
     w\<lparr>store := (store w)\<lparr>error := Some msg, isLoading := False,
          auth := (auth (store w))\<lparr>user := None, isAuthenticated := False\<rparr>\<rparr>\<rparr>"

text \<open>\<open>err instanceof Error ? err.message : fallback\<close>\<close>

definition error_message :: "thrown \<Rightarrow> string \<Rightarrow> string" where
  "error_message err fallback = (case err of Error msg \<Rightarrow> msg | NonError \<Rightarrow> fallback)"

text \<open>\<open>set({ isLoading: true, error: null })\<close>\<close>

definition start_loading :: "world \<Rightarrow> world" where
  "start_loading w = w\<lparr>store := (store w)\<lparr>isLoading := True, error := None\<rparr>\<rparr>"

definition set_auth :: "PuterUser option \<Rightarrow> bool \<Rightarrow> world \<Rightarrow> world" where
  "set_auth u a w =
     w\<lparr>store := (store w)\<lparr>auth := \<lparr>user = u, isAuthenticated = a, getUser = Captured u\<rparr>,
          isLoading := False\<rparr>\<rparr>"

definition checkAuthStatus :: "world \<Rightarrow> bool \<times> world" where
  "checkAuthStatus w =
     (case getPuter w of
        None \<Rightarrow> (False, setError ''Puter.js not available'' w)
      | Some puter \<Rightarrow>
          (let w1 = start_loading w in
           case auth_isSignedIn puter (history w1) of
             Rejected err \<Rightarrow>
               (False, setError (error_message err ''Failed to check auth status'') (log (Backend AuthIsSignedIn) w1))
           | Resolved isSignedIn \<Rightarrow>
               (let w2 = log (Backend AuthIsSignedIn) w1 in
                if isSignedIn then
                  (case auth_getUser puter (history w2) of
                     Rejected err \<Rightarrow>
                       (False, setError (error_message err ''Failed to check auth status'') (log (Backend AuthGetUser) w2))
                   | Resolved u \<Rightarrow> (True, set_auth (Some u) True (log (Backend AuthGetUser) w2)))
                else (False, set_auth None False w2))))"

definition signIn :: "world \<Rightarrow> world" where
  "signIn w =
     (case getPuter w of
        None \<Rightarrow> setError ''Puter.js not available'' w
      | Some puter \<Rightarrow>
          (let w1 = start_loading w in
           case auth_signIn puter (history w1) of
             Rejected err \<Rightarrow> setError (error_message err ''Sign in failed'') (log (Backend AuthSignIn) w1)
           | Resolved _ \<Rightarrow> snd (checkAuthStatus (log (Backend AuthSignIn) w1))))"

definition signOut :: "world \<Rightarrow> world" where
  "signOut w =
     (case getPuter w of
        None \<Rightarrow> setError ''Puter.js not available'' w
      | Some puter \<Rightarrow>
          (let w1 = start_loading w in
           case auth_signOut puter (history w1) of
             Rejected err \<Rightarrow> setError (error_message err ''Sign out failed'') (log (Backend AuthSignOut) w1)
           | Resolved _ \<Rightarrow> set_auth None False (log (Backend AuthSignOut) w1)))"

definition refreshUser :: "world \<Rightarrow> world" where
  "refreshUser w =
     (case getPuter w of
        None \<Rightarrow> setError ''Puter.js not available'' w
      | Some puter \<Rightarrow>
          (let w1 = start_loading w in
           case auth_getUser puter (history w1) of
             Rejected err \<Rightarrow> setError (error_message err ''Failed to refresh user'') (log (Backend AuthGetUser) w1)
           | Resolved u \<Rightarrow> set_auth (Some u) True (log (Backend AuthGetUser) w1)))"

text \<open>
  \<open>init\<close>, and the two timer callbacks it arms when the backend is not there yet: the
  100 ms poll and the 10 s timeout.
\<close>

definition set_ready :: "world \<Rightarrow> world" where
  "set_ready w = w\<lparr>store := (store w)\<lparr>puterReady := True\<rparr>\<rparr>"

definition init :: "world \<Rightarrow> world" where
  "init w =
     (case getPuter w of
        Some _ \<Rightarrow> snd (checkAuthStatus (set_ready w))
      | None \<Rightarrow> w\<lparr>interval_active := True, timeout_pending := True\<rparr>)"

definition init_poll :: "world \<Rightarrow> world" where
  "init_poll w =
     (if interval_active w \<and> getPuter w \<noteq> None
      then snd (checkAuthStatus (set_ready (w\<lparr>interval_active := False\<rparr>)))
      else w)"

definition init_timeout :: "world \<Rightarrow> world" where
  "init_timeout w =
     (if timeout_pending w then
        (let w1 = w\<lparr>interval_active := False, timeout_pending := False\<rparr>
         in if getPuter w1 = None then setError ''Puter.js failed to load within 10 seconds'' w1 else w1)
      else w)"

subsection \<open>Filesystem, AI and key-value helpers\<close>

text \<open>
  Each helper is \<open>const puter = getPuter(); if (!puter) { setError("Puter.js not
  available"); return; } return puter.\<dots>(\<dots>);\<close> with no \<open>try\<close>/\<open>catch\<close>: the promise of the
  backend call is handed to the caller as it is.
\<close>

definition some_result :: "'a settled \<Rightarrow> 'a option settled" where
  "some_result r = (case r of Rejected e \<Rightarrow> Rejected e | Resolved x \<Rightarrow> Resolved (Some x))"

text \<open>\<open>write\<close> (a reserved word here, hence \<open>writeFile\<close>).\<close>

definition writeFile :: "string \<Rightarrow> payload \<Rightarrow> world \<Rightarrow> File option settled \<times> world" where
  "writeFile p d w =
     (let w0 = log (Facade (Fs_write p d)) w in
      case getPuter w0 of
        None \<Rightarrow> (Resolved None, setError ''Puter.js not available'' w0)
      | Some puter \<Rightarrow> (fs_write puter (history w0) p d, log (Backend (FsWrite p d)) w0))"

definition readDir :: "string \<Rightarrow> world \<Rightarrow> FSItem list option settled \<times> world" where
  "readDir p w =
     (let w0 = log (Facade (Fs_readDir p)) w in
      case getPuter w0 of
        None \<Rightarrow> (Resolved None, setError ''Puter.js not available'' w0)
      | Some puter \<Rightarrow> (fs_readdir puter (history w0) p, log (Backend (FsReaddir p)) w0))"

definition readFile :: "string \<Rightarrow> world \<Rightarrow> blob option settled \<times> world" where
  "readFile p w =
     (let w0 = log (Facade (Fs_read p)) w in
      case getPuter w0 of
        None \<Rightarrow> (Resolved None, setError ''Puter.js not available'' w0)
      | Some puter \<Rightarrow> (some_result (fs_read puter (history w0) p), log (Backend (FsRead p)) w0))"

definition upload :: "uploads \<Rightarrow> world \<Rightarrow> FSItem option settled \<times> world" where
  "upload files w =
     (let w0 = log (Facade (Fs_upload files)) w in
      case getPuter w0 of
        None \<Rightarrow> (Resolved None, setError ''Puter.js not available'' w0)
      | Some puter \<Rightarrow> (fs_upload puter (history w0) files, log (Backend (FsUpload files)) w0))"

text \<open>\<open>fs.delete\<close> resolves to \<open>undefined\<close> on either path.\<close>

definition deleteFile :: "string \<Rightarrow> world \<Rightarrow> unit settled \<times> world" where
  "deleteFile p w =
     (let w0 = log (Facade (Fs_delete p)) w in
      case getPuter w0 of
        None \<Rightarrow> (Resolved (), setError ''Puter.js not available'' w0)
      | Some puter \<Rightarrow> (fs_delete puter (history w0) p, log (Backend (FsDelete p)) w0))"

definition chat :: "prompt \<Rightarrow> chat_arg option \<Rightarrow> bool option \<Rightarrow> PuterChatOptions option \<Rightarrow> world
                      \<Rightarrow> AIResponse option settled \<times> world" where
  "chat pr imageURL testMode options w =
     (let w0 = log (Facade (Ai_chat pr imageURL testMode options)) w in
      case getPuter w0 of
        None \<Rightarrow> (Resolved None, setError ''Puter.js not available'' w0)
      | Some puter \<Rightarrow>
          (ai_chat puter (history w0) pr imageURL testMode options,
           log (Backend (AiChat pr imageURL testMode options)) w0))"

definition feedback_messages :: "string \<Rightarrow> string \<Rightarrow> prompt" where
  "feedback_messages p msg = Messages [\<lparr>role = ''user'', content = Parts [FilePart p, TextPart msg]\<rparr>]"

definition feedback_options :: "chat_arg option" where
  "feedback_options = Some (ChatOptions \<lparr>model = Some ''claude-3-7-sonnet''\<rparr>)"

definition feedback :: "string \<Rightarrow> string \<Rightarrow> world \<Rightarrow> AIResponse option settled \<times> world" where
  "feedback p msg w =
     (let w0 = log (Facade (Ai_feedback p msg)) w in
      case getPuter w0 of
        None \<Rightarrow> (Resolved None, setError ''Puter.js not available'' w0)
      | Some puter \<Rightarrow>
          (ai_chat puter (history w0) (feedback_messages p msg) feedback_options None None,
           log (Backend (AiChat (feedback_messages p msg) feedback_options None None)) w0))"

definition img2txt :: "payload \<Rightarrow> bool option \<Rightarrow> world \<Rightarrow> string option settled \<times> world" where
  "img2txt img testMode w =
     (let w0 = log (Facade (Ai_img2txt img testMode)) w in
      case getPuter w0 of
        None \<Rightarrow> (Resolved None, setError ''Puter.js not available'' w0)
      | Some puter \<Rightarrow>
          (some_result (ai_img2txt puter (history w0) img testMode),
           log (Backend (AiImg2txt img testMode)) w0))"

text \<open>\<open>kv.get\<close>: the outer \<open>None\<close> is \<open>undefined\<close>, \<open>Some None\<close> is \<open>null\<close>.\<close>

definition getKV :: "string \<Rightarrow> world \<Rightarrow> string option option settled \<times> world" where
  "getKV k w =
     (let w0 = log (Facade (Kv_get k)) w in
      case getPuter w0 of
        None \<Rightarrow> (Resolved None, setError ''Puter.js not available'' w0)
      | Some puter \<Rightarrow> (some_result (kv_get puter (history w0) k), log (Backend (KvGet k)) w0))"

definition setKV :: "string \<Rightarrow> string \<Rightarrow> world \<Rightarrow> bool option settled \<times> world" where
  "setKV k v w =
     (let w0 = log (Facade (Kv_set k v)) w in
      case getPuter w0 of
        None \<Rightarrow> (Resolved None, setError ''Puter.js not available'' w0)
      | Some puter \<Rightarrow> (some_result (kv_set puter (history w0) k v), log (Backend (KvSet k v)) w0))"

definition deleteKV :: "string \<Rightarrow> world \<Rightarrow> bool option settled \<times> world" where
  "deleteKV k w =
     (let w0 = log (Facade (Kv_delete k)) w in
      case getPuter w0 of
        None \<Rightarrow> (Resolved None, setError ''Puter.js not available'' w0)
      | Some puter \<Rightarrow> (some_result (kv_delete puter (history w0) k), log (Backend (KvDelete k)) w0))"

definition listKV :: "string \<Rightarrow> bool option \<Rightarrow> world \<Rightarrow> kv_listing option settled \<times> world" where
  "listKV pattern returnValues w =
     (let w0 = log (Facade (Kv_list pattern returnValues)) w in
      case getPuter w0 of
        None \<Rightarrow> (Resolved None, setError ''Puter.js not available'' w0)
      | Some puter \<Rightarrow>
          (let rv = (case returnValues of None \<Rightarrow> False | Some b \<Rightarrow> b) in
           (some_result (kv_list puter (history w0) pattern rv), log (Backend (KvList pattern rv)) w0)))"

definition flushKV :: "world \<Rightarrow> bool option settled \<times> world" where
  "flushKV w =
     (let w0 = log (Facade Kv_flush) w in
      case getPuter w0 of
        None \<Rightarrow> (Resolved None, setError ''Puter.js not available'' w0)
      | Some puter \<Rightarrow> (some_result (kv_flush puter (history w0)), log (Backend KvFlush) w0))"

text \<open>
  What a caller of any exposed operation gets to see: the settled promise, with its
  value as a JavaScript value.
\<close>

datatype js_result =
    Undefined
  | Null
  | UserValue PuterUser
  | FileValue File
  | BlobValue blob
  | ItemValue FSItem
  | ItemsValue "FSItem list"
  | ResponseValue AIResponse
  | StringValue string
  | BoolValue bool
  | ListingValue kv_listing

definition as_js :: "('a \<Rightarrow> js_result) \<Rightarrow> 'a option settled \<times> world \<Rightarrow> js_result settled \<times> world" where
  "as_js f rw =
     (case fst rw of
        Rejected e \<Rightarrow> (Rejected e, snd rw)
      | Resolved None \<Rightarrow> (Resolved Undefined, snd rw)
      | Resolved (Some x) \<Rightarrow> (Resolved (f x), snd rw))"

fun invoke :: "facade_op \<Rightarrow> world \<Rightarrow> js_result settled \<times> world" where
  "invoke (Fs_write p d) w = as_js FileValue (writeFile p d w)"
| "invoke (Fs_read p) w = as_js BlobValue (readFile p w)"
| "invoke (Fs_readDir p) w = as_js ItemsValue (readDir p w)"
| "invoke (Fs_upload files) w = as_js ItemValue (upload files w)"
| "invoke (Fs_delete p) w =
     (case deleteFile p w of (Rejected e, w1) \<Rightarrow> (Rejected e, w1) | (Resolved _, w1) \<Rightarrow> (Resolved Undefined, w1))"
| "invoke (Ai_chat pr imageURL testMode options) w = as_js ResponseValue (chat pr imageURL testMode options w)"
| "invoke (Ai_feedback p msg) w = as_js ResponseValue (feedback p msg w)"
| "invoke (Ai_img2txt img testMode) w = as_js StringValue (img2txt img testMode w)"
| "invoke (Kv_get k) w = as_js (\<lambda>v. case v of None \<Rightarrow> Null | Some s \<Rightarrow> StringValue s) (getKV k w)"
| "invoke (Kv_set k v) w = as_js BoolValue (setKV k v w)"
| "invoke (Kv_delete k) w = as_js BoolValue (deleteKV k w)"
| "invoke (Kv_list pattern returnValues) w = as_js ListingValue (listKV pattern returnValues w)"
| "invoke Kv_flush w = as_js BoolValue (flushKV w)"

text \<open>
  The backend call that an exposed operation issues when \<open>window.puter\<close> is there, and
  the backend's settled answer to a call, as a JavaScript value.
\<close>

fun backend_call_of :: "facade_op \<Rightarrow> bcall" where
  "backend_call_of (Fs_write p d) = FsWrite p d"
| "backend_call_of (Fs_read p) = FsRead p"
| "backend_call_of (Fs_readDir p) = FsReaddir p"
| "backend_call_of (Fs_upload files) = FsUpload files"
| "backend_call_of (Fs_delete p) = FsDelete p"
| "backend_call_of (Ai_chat pr imageURL testMode options) = AiChat pr imageURL testMode options"
| "backend_call_of (Ai_feedback p msg) = AiChat (feedback_messages p msg) feedback_options None None"
| "backend_call_of (Ai_img2txt img testMode) = AiImg2txt img testMode"
| "backend_call_of (Kv_get k) = KvGet k"
| "backend_call_of (Kv_set k v) = KvSet k v"
| "backend_call_of (Kv_delete k) = KvDelete k"
| "backend_call_of (Kv_list pattern returnValues) =
     KvList pattern (case returnValues of None \<Rightarrow> False | Some b \<Rightarrow> b)"
| "backend_call_of Kv_flush = KvFlush"

definition settled_js :: "('a \<Rightarrow> js_result) \<Rightarrow> 'a settled \<Rightarrow> js_result settled" where
  "settled_js f r = (case r of Rejected e \<Rightarrow> Rejected e | Resolved x \<Rightarrow> Resolved (f x))"

fun respond :: "puter \<Rightarrow> bcall list \<Rightarrow> bcall \<Rightarrow> js_result settled" where
  "respond p h AuthGetUser = settled_js UserValue (auth_getUser p h)"
| "respond p h AuthIsSignedIn = settled_js BoolValue (auth_isSignedIn p h)"
| "respond p h AuthSignIn = settled_js (\<lambda>_. Undefined) (auth_signIn p h)"
| "respond p h AuthSignOut = settled_js (\<lambda>_. Undefined) (auth_signOut p h)"
| "respond p h (FsWrite pth d) =
     settled_js (\<lambda>r. case r of None \<Rightarrow> Undefined | Some f \<Rightarrow> FileValue f) (fs_write p h pth d)"
| "respond p h (FsRead pth) = settled_js BlobValue (fs_read p h pth)"
| "respond p h (FsUpload files) =
     settled_js (\<lambda>r. case r of None \<Rightarrow> Undefined | Some i \<Rightarrow> ItemValue i) (fs_upload p h files)"
| "respond p h (FsDelete pth) = settled_js (\<lambda>_. Undefined) (fs_delete p h pth)"
| "respond p h (FsReaddir pth) =
     settled_js (\<lambda>r. case r of None \<Rightarrow> Undefined | Some is \<Rightarrow> ItemsValue is) (fs_readdir p h pth)"
| "respond p h (AiChat pr a t opts) =
     settled_js (\<lambda>r. case r of None \<Rightarrow> Undefined | Some x \<Rightarrow> ResponseValue x) (ai_chat p h pr a t opts)"
| "respond p h (AiImg2txt img t) = settled_js StringValue (ai_img2txt p h img t)"
| "respond p h (KvGet k) =
     settled_js (\<lambda>r. case r of None \<Rightarrow> Null | Some s \<Rightarrow> StringValue s) (kv_get p h k)"
| "respond p h (KvSet k v) = settled_js BoolValue (kv_set p h k v)"
| "respond p h (KvDelete k) = settled_js BoolValue (kv_delete p h k)"
| "respond p h (KvList pattern rv) = settled_js ListingValue (kv_list p h pattern rv)"
| "respond p h KvFlush = settled_js BoolValue (kv_flush p h)"

section \<open>Upload route (app/routes/upload.tsx)\<close>

text \<open>The component state set by \<open>setIsProcessing\<close> and \<open>setStatusText\<close>.\<close>

record upload_ui =
  isProcessing :: bool
  statusText :: string

text \<open>
  What one run takes from its environment: the identifier that \<open>crypto.randomUUID()\<close>
  returns, what rendering the chosen file does, the unique part of the object URL, and
  \<open>prepareInstructions\<close>, which lives in \<open>constants\<close> and is taken as a parameter.
\<close>

record pipeline_env =
  randomUUID :: string
  render :: render_outcome
  fresh_url :: "blob \<Rightarrow> string"
  prepareInstructions :: "string \<Rightarrow> string \<Rightarrow> string"

text \<open>
  How an async function ends: it returns, it throws (its promise rejects), or it went
  through a \<open>JSON.parse\<close> input that the JSON model does not cover.
\<close>

datatype 'a completion = Returned 'a | Threw thrown | Unmodelled

text \<open>The object literal \<open>data\<close> of \<open>handleAnalyze\<close>.\<close>

definition resume_data :: "string \<Rightarrow> string \<Rightarrow> string \<Rightarrow> string \<Rightarrow> string \<Rightarrow> string \<Rightarrow> json \<Rightarrow> json" where
  "resume_data uuid resumePath imagePath companyName jobTitle jobDescription fb =
     JObj [(''id'', JStr uuid),
           (''resumePath'', JStr resumePath),
           (''imagePath'', JStr imagePath),
           (''companyName'', JStr companyName),
           (''jobTitle'', JStr jobTitle),
           (''jobDescription'', JStr jobDescription),
           (''feedback'', fb)]"

text \<open>Property assignment \<open>obj.k = v\<close> and property read \<open>obj.k\<close> on a plain object.\<close>

definition set_property :: "json \<Rightarrow> string \<Rightarrow> json \<Rightarrow> json" where
  "set_property obj k v = (case obj of JObj ms \<Rightarrow> JObj (obj_set ms k v) | _ \<Rightarrow> obj)"

definition get_property :: "json \<Rightarrow> string \<Rightarrow> json option" where
  "get_property obj k = (case obj of JObj ms \<Rightarrow> map_of ms k | _ \<Rightarrow> None)"

text \<open>
  \<open>typeof feedback.message.content === "string" ? feedback.message.content :
  feedback.message.content[0].text\<close>.  Indexing an empty array gives \<open>undefined\<close>, whose
  \<open>.text\<close> throws a \<open>TypeError\<close>; a first part without \<open>text\<close> gives \<open>undefined\<close> (\<open>None\<close>).
\<close>

definition feedbackText :: "AIResponse \<Rightarrow> thrown + string option" where
  "feedbackText fb =
     (case content (message fb) of
        Text s \<Rightarrow> Inr (Some s)
      | Parts [] \<Rightarrow> Inl (Error ''TypeError'')
      | Parts (TextPart t # _) \<Rightarrow> Inr (Some t)
      | Parts (FilePart _ # _) \<Rightarrow> Inr None)"

text \<open>\<open>JSON.parse\<close> converts its argument to a string first: \<open>undefined\<close> becomes \<open>"undefined"\<close>.\<close>

definition to_string :: "string option \<Rightarrow> string" where
  "to_string t = (case t of None \<Rightarrow> ''undefined'' | Some s \<Rightarrow> s)"

definition handleAnalyze ::
  "pipeline_env \<Rightarrow> string \<Rightarrow> string \<Rightarrow> string \<Rightarrow> File \<Rightarrow> upload_ui \<times> world
     \<Rightarrow> unit completion \<times> upload_ui \<times> world" where
  "handleAnalyze env companyName jobTitle jobDescription file uw =
     (let ui1 = (fst uw)\<lparr>isProcessing := True, statusText := ''Uploading the file...''\<rparr> in
      case upload (Files [file]) (snd uw) of
        (Rejected e, w1) \<Rightarrow> (Threw e, ui1, w1)
      | (Resolved None, w1) \<Rightarrow> (Returned (), ui1\<lparr>statusText := ''Error: Failed to upload file''\<rparr>, w1)
      | (Resolved (Some uploadedFile), w1) \<Rightarrow>
     (let ui2 = ui1\<lparr>statusText := ''Converting to image...''\<rparr>;
          imageFile = convertPdfToImage (fresh_url env) (render env) file;
          w2 = log (Convert file) w1 in
      case res_file imageFile of
        None \<Rightarrow> (Returned (), ui2\<lparr>statusText := ''Error: Failed to convert PDF to image''\<rparr>, w2)
      | Some img \<Rightarrow>
     (let ui3 = ui2\<lparr>statusText := ''Uploading the image...''\<rparr> in
      case upload (Files [img]) w2 of
        (Rejected e, w3) \<Rightarrow> (Threw e, ui3, w3)
      | (Resolved None, w3) \<Rightarrow> (Returned (), ui3\<lparr>statusText := ''Error: Failed to upload image''\<rparr>, w3)
      | (Resolved (Some uploadedImage), w3) \<Rightarrow>
     (let ui4 = ui3\<lparr>statusText := ''Preparing data...''\<rparr>;
          uuid = randomUUID env;
          data = resume_data uuid (path uploadedFile) (path uploadedImage)
                   companyName jobTitle jobDescription (JStr []) in
      case setKV (''resume:'' @ uuid) (JSON_stringify data) w3 of
        (Rejected e, w4) \<Rightarrow> (Threw e, ui4, w4)
      | (Resolved _, w4) \<Rightarrow>
     (let ui5 = ui4\<lparr>statusText := ''Analyzing...''\<rparr> in
      case feedback (path uploadedFile) (prepareInstructions env jobTitle jobDescription) w4 of
        (Rejected e, w5) \<Rightarrow> (Threw e, ui5, w5)
      | (Resolved None, w5) \<Rightarrow> (Returned (), ui5\<lparr>statusText := ''Error: Failed to analyze resume''\<rparr>, w5)
      | (Resolved (Some fb), w5) \<Rightarrow>
     (case feedbackText fb of
        Inl e \<Rightarrow> (Threw e, ui5, w5)
      | Inr text \<Rightarrow>
     (case JSON_parse (to_string text) of
        Inl SyntaxError \<Rightarrow> (Threw (Error ''SyntaxError''), ui5, w5)
      | Inl Unsupported \<Rightarrow> (Unmodelled, ui5, w5)
      | Inl Exhausted \<Rightarrow> (Unmodelled, ui5, w5)
      | Inr parsed \<Rightarrow>
     (case setKV (''resume:'' @ uuid) (JSON_stringify (set_property data ''feedback'' parsed)) w5 of
        (Rejected e, w6) \<Rightarrow> (Threw e, ui5, w6)
      | (Resolved _, w6) \<Rightarrow>
          (Returned (), ui5\<lparr>statusText := ''Analysis complete, redirecting...''\<rparr>,
           log (Navigate (''/resume/'' @ uuid)) w6)))))))))"

section \<open>Listing of stored records (app/routes/home.tsx) and the key-value service\<close>

text \<open>
  The key-value service belongs to the remote backend.  Its semantics are those the
  specification assumes of it: \<open>set\<close> stores a value under a key, \<open>delete\<close> removes a key,
  \<open>flush\<close> clears the namespace, and \<open>list(pattern, true)\<close> returns the entries whose
  key matches a glob with a trailing wildcard.
\<close>

definition glob_match :: "string \<Rightarrow> string \<Rightarrow> bool" where
  "glob_match pattern k =
     (if pattern \<noteq> [] \<and> last pattern = CHR ''*''
      then take (length pattern - 1) k = butlast pattern
      else k = pattern)"

fun kv_apply :: "(string \<times> string) list \<Rightarrow> bcall \<Rightarrow> (string \<times> string) list" where
  "kv_apply s (KvSet k v) =
     (if k \<in> fst ` set s then map (\<lambda>e. if fst e = k then (k, v) else e) s else s @ [(k, v)])"
| "kv_apply s (KvDelete k) = filter (\<lambda>e. fst e \<noteq> k) s"
| "kv_apply s KvFlush = []"
| "kv_apply s _ = s"

definition kv_contents :: "(string \<times> string) list \<Rightarrow> bcall list \<Rightarrow> (string \<times> string) list" where
  "kv_contents s0 calls = foldl kv_apply s0 calls"

definition kv_service_list :: "string \<Rightarrow> (string \<times> string) list \<Rightarrow> KVItem list" where
  "kv_service_list pattern s =
     map (\<lambda>e. \<lparr>kv_key = fst e, kv_value = snd e\<rparr>) (filter (\<lambda>e. glob_match pattern (fst e)) s)"

text \<open>\<open>Home.loadResumes\<close> asks for \<open>kv.list("resume:*", true)\<close> and parses each value.\<close>

definition resumes_pattern :: string where
  "resumes_pattern = ''resume:*''"

definition parsedResumes :: "KVItem list \<Rightarrow> (parse_error + json) list" where
  "parsedResumes resumes = map (\<lambda>resume. JSON_parse (kv_value resume)) resumes"

text \<open>The events of a run of \<open>handleAnalyze\<close> that goes through all its steps.\<close>

definition complete_run ::
  "pipeline_env \<Rightarrow> string \<Rightarrow> string \<Rightarrow> string \<Rightarrow> File \<Rightarrow> File \<Rightarrow> FSItem \<Rightarrow> FSItem \<Rightarrow> json \<Rightarrow> event list" where
  "complete_run env companyName jobTitle jobDescription file img uploadedFile uploadedImage parsed =
     (let key = ''resume:'' @ randomUUID env;
          data = resume_data (randomUUID env) (path uploadedFile) (path uploadedImage)
                   companyName jobTitle jobDescription;
          instructions = prepareInstructions env jobTitle jobDescription
      in [Facade (Fs_upload (Files [file])), Backend (FsUpload (Files [file])),
          Convert file,
          Facade (Fs_upload (Files [img])), Backend (FsUpload (Files [img])),
          Facade (Kv_set key (JSON_stringify (data (JStr [])))),
          Backend (KvSet key (JSON_stringify (data (JStr [])))),
          Facade (Ai_feedback (path uploadedFile) instructions),
          Backend (AiChat (feedback_messages (path uploadedFile) instructions) feedback_options None None),
          Facade (Kv_set key (JSON_stringify (data parsed))),
          Backend (KvSet key (JSON_stringify (data parsed))),
          Navigate (''/resume/'' @ randomUUID env)])"

text \<open>
  The scores that the views read from a feedback payload: \<open>feedback.overallScore\<close> and
  \<open>feedback.<category>.score\<close> for the five categories.
\<close>

definition feedback_scores :: "json \<Rightarrow> json option list" where
  "feedback_scores fb =
     get_property fb ''overallScore'' #
     map (\<lambda>category. case get_property fb category of
                        None \<Rightarrow> None
                      | Some c \<Rightarrow> get_property c ''score'')
       [''ATS'', ''toneAndStyle'', ''content'', ''structure'', ''skills'']"

definition valid_score :: "json option \<Rightarrow> bool" where
  "valid_score s = (case s of Some (JNum n) \<Rightarrow> 0 \<le> n \<and> n \<le> 100 | _ \<Rightarrow> False)"

definition scores_in_range :: "json \<Rightarrow> bool" where
  "scores_in_range fb = list_all valid_score (feedback_scores fb)"

section \<open>Sample inputs\<close>

text \<open>
  A backend that answers every call, variants of it, a signed-in and a fresh world, a PDF, and two
  critiques as the AI may return them: one with all scores in range, one with an
  overall score of 150.
\<close>

definition sample_feedback :: json where
  "sample_feedback =
     JObj [(''overallScore'', JNum 82),
           (''ATS'', JObj [(''score'', JNum 75),
              (''tips'', JArr [JObj [(''type'', JStr ''good''), (''tip'', JStr ''Clear headings'')]])]),
           (''toneAndStyle'', JObj [(''score'', JNum 80),
              (''tips'', JArr [JObj [(''type'', JStr ''improve''), (''tip'', JStr ''Use active voice''),
                                     (''explanation'', JStr ''Start bullets with a verb.'')]])]),
           (''content'', JObj [(''score'', JNum 90), (''tips'', JArr [])]),
           (''structure'', JObj [(''score'', JNum 70), (''tips'', JArr [])]),
           (''skills'', JObj [(''score'', JNum 100), (''tips'', JArr [])])]"

definition overscored_feedback :: json where
  "overscored_feedback =
     JObj [(''overallScore'', JNum 150),
           (''ATS'', JObj [(''score'', JNum 75), (''tips'', JArr [])]),
           (''toneAndStyle'', JObj [(''score'', JNum 80), (''tips'', JArr [])]),
           (''content'', JObj [(''score'', JNum 90), (''tips'', JArr [])]),
           (''structure'', JObj [(''score'', JNum 70), (''tips'', JArr [])]),
           (''skills'', JObj [(''score'', JNum 100), (''tips'', JArr [])])]"

definition answering_puter :: "json \<Rightarrow> puter" where
  "answering_puter critique =
     \<lparr>auth_getUser = (\<lambda>h. Resolved \<lparr>user_uuid = ''u-1'', username = ''ada''\<rparr>),
      auth_isSignedIn = (\<lambda>h. Resolved True),
      auth_signIn = (\<lambda>h. Resolved ()),
      auth_signOut = (\<lambda>h. Resolved ()),
      fs_write = (\<lambda>h p d. Resolved None),
      fs_read = (\<lambda>h p. Resolved ''bytes''),
      fs_upload = (\<lambda>h u. Resolved (Some \<lparr>item_id = ''1'', item_name = ''upload'',
                     path = (case u of Files (f # _) \<Rightarrow> ''/uploads/'' @ name f | _ \<Rightarrow> ''/uploads/blob'')\<rparr>)),
      fs_delete = (\<lambda>h p. Resolved ()),
      fs_readdir = (\<lambda>h p. Resolved (Some [])),
      ai_chat = (\<lambda>h pr a t opts. Resolved (Some \<lparr>message =
                   \<lparr>role = ''assistant'', content = Text (JSON_stringify critique)\<rparr>\<rparr>)),
      ai_img2txt = (\<lambda>h i t. Resolved ''text''),
      kv_get = (\<lambda>h k. Resolved None),
      kv_set = (\<lambda>h k v. Resolved True),
      kv_delete = (\<lambda>h k. Resolved True),
      kv_list = (\<lambda>h p v. Resolved (Keys [])),
      kv_flush = (\<lambda>h. Resolved True)\<rparr>"

definition rejecting_puter :: puter where
  "rejecting_puter = (answering_puter sample_feedback)\<lparr>kv_set := (\<lambda>h k v. Rejected (Error ''quota exceeded''))\<rparr>"

text \<open>A backend whose \<open>fs.upload\<close> resolves without a handle.\<close>

definition handleless_puter :: puter where
  "handleless_puter = (answering_puter sample_feedback)\<lparr>fs_upload := (\<lambda>h u. Resolved None)\<rparr>"

definition fresh_world :: "puter option \<Rightarrow> world" where
  "fresh_world p =
     \<lparr>window_puter = p, store = initial_store, interval_active = False, timeout_pending = False,
      trace = []\<rparr>"

definition signed_in_world :: "puter \<Rightarrow> world" where
  "signed_in_world p = snd (checkAuthStatus (fresh_world (Some p)))"

definition sample_env :: pipeline_env where
  "sample_env =
     \<lparr>randomUUID = ''0b0e7a52'', render = ToBlob (Some ''png-bytes''), fresh_url = (\<lambda>b. ''origin/1''),
      prepareInstructions = (\<lambda>jobTitle jobDescription. jobTitle @ '': '' @ jobDescription)\<rparr>"

definition sample_pdf :: File where
  "sample_pdf = \<lparr>name = ''cv.pdf'', ftype = ''application/pdf'', bytes = ''%PDF-1.7''\<rparr>"

definition idle_ui :: upload_ui where
  "idle_ui = \<lparr>isProcessing = False, statusText = []\<rparr>"

text \<open>The run of the pipeline on the sample PDF against a backend that returns the given critique.\<close>

definition sample_run_of :: "json \<Rightarrow> unit completion \<times> upload_ui \<times> world" where
  "sample_run_of critique =
     handleAnalyze sample_env ''Acme'' ''Engineer'' ''Build things'' sample_pdf
       (idle_ui, fresh_world (Some (answering_puter critique)))"

section \<open>\<open>JSON.parse\<close> inverts \<open>JSON.stringify\<close>\<close>

lemma of_char_digit_char: "d < 10 \<Longrightarrow> (of_char (digit_char d) :: nat) = 48 + d"
  by (simp add: digit_char_def)

lemma is_digit_digit_char: "d < 10 \<Longrightarrow> is_digit (digit_char d)"
  by (simp add: is_digit_def of_char_digit_char)

lemma digit_val_digit_char: "d < 10 \<Longrightarrow> digit_val (digit_char d) = d"
  by (simp add: digit_val_def of_char_digit_char)

lemma show_nat_digits: "list_all is_digit (show_nat n)"
proof (induction n rule: show_nat.induct)
  case (1 n)
  show ?case
  proof (cases "n < 10")
    case True
    then show ?thesis by (simp add: show_nat.simps[of n] is_digit_digit_char)
  next
    case False
    with 1 show ?thesis by (simp add: show_nat.simps[of n] is_digit_digit_char)
  qed
qed

lemma show_nat_nonempty: "show_nat n \<noteq> []"
  by (subst show_nat.simps) simp

lemma digits_val_snoc: "digits_val (ds @ [c]) = 10 * digits_val ds + int (digit_val c)"
  by (simp add: digits_val_def)

lemma digits_val_show_nat: "digits_val (show_nat n) = int n"
proof (induction n rule: show_nat.induct)
  case (1 n)
  show ?case
  proof (cases "n < 10")
    case True
    then show ?thesis by (simp add: show_nat.simps[of n] digits_val_def digit_val_digit_char)
  next
    case False
    with 1 have "digits_val (show_nat (n div 10)) = int (n div 10)" by simp
    with False show ?thesis
      by (simp add: show_nat.simps[of n] digits_val_snoc digit_val_digit_char zdiv_int zmod_int)
  qed
qed

lemma show_nat_hd_zero: "hd (show_nat n) = CHR ''0'' \<Longrightarrow> n = 0"
proof (induction n rule: show_nat.induct)
  case (1 n)
  show ?case
  proof (cases "n < 10")
    case True
    with 1(2) have "digit_char n = CHR ''0''" by (simp add: show_nat.simps[of n])
    then have "(of_char (digit_char n) :: nat) = 48" by simp
    with True show ?thesis by (simp add: of_char_digit_char)
  next
    case False
    with 1(2) have "hd (show_nat (n div 10)) = CHR ''0''"
      by (simp add: show_nat.simps[of n] show_nat_nonempty)
    with 1(1) False have "n div 10 = 0" by simp
    with False show ?thesis by simp
  qed
qed

lemma show_nat_zero: "show_nat 0 = ''0''"
proof -
  have "(of_char (digit_char 0) :: nat) = of_char (CHR ''0'')" by (simp add: of_char_digit_char)
  then have "digit_char 0 = CHR ''0''" by (simp only: of_char_eq_iff)
  then show ?thesis by (simp add: show_nat.simps[of 0])
qed

lemma show_nat_no_leading_zero: "\<not> (hd (show_nat n) = CHR ''0'' \<and> 1 < length (show_nat n))"
  using show_nat_hd_zero[of n] by (auto simp: show_nat_zero)

lemma value_end_not_digit: "value_end rest \<Longrightarrow> rest = [] \<or> \<not> is_digit (hd rest)"
  by (auto simp: value_end_def is_digit_def)

lemma takeWhile_digits:
  assumes "list_all is_digit ds" "rest = [] \<or> \<not> is_digit (hd rest)"
  shows "takeWhile is_digit (ds @ rest) = ds" "dropWhile is_digit (ds @ rest) = rest"
proof -
  have base: "takeWhile is_digit rest = [] \<and> dropWhile is_digit rest = rest"
    using assms(2) by (cases rest) simp_all
  show "takeWhile is_digit (ds @ rest) = ds" using assms(1) base by (induction ds) simp_all
  show "dropWhile is_digit (ds @ rest) = rest" using assms(1) base by (induction ds) simp_all
qed

lemma parse_number_show_nat:
  assumes "value_end rest" "int n \<le> 2 ^ 53 - 1"
  shows "parse_number (show_nat n @ rest) = Inr (int n, rest)"
proof -
  have d: "list_all is_digit (show_nat n)" by (rule show_nat_digits)
  then have "is_digit (hd (show_nat n))" using show_nat_nonempty[of n]
    by (cases "show_nat n") simp_all
  then have nm: "hd (show_nat n) \<noteq> CHR ''-''" by (auto simp: is_digit_def)
  have tw: "takeWhile is_digit (show_nat n @ rest) = show_nat n"
    and dw: "dropWhile is_digit (show_nat n @ rest) = rest"
    using takeWhile_digits[OF d value_end_not_digit[OF assms(1)]] by simp_all
  have r: "\<not> (rest \<noteq> [] \<and> (hd rest = CHR ''.'' \<or> hd rest = CHR ''e'' \<or> hd rest = CHR ''E''))"
    using assms(1) by (auto simp: value_end_def)
  show ?thesis
    using nm tw dw r assms(2) show_nat_nonempty[of n] show_nat_no_leading_zero[of n]
    by (simp add: parse_number_def Let_def digits_val_show_nat)
qed

lemma parse_number_show_int:
  assumes "value_end rest" "\<bar>i\<bar> \<le> 2 ^ 53 - 1"
  shows "parse_number (show_int i @ rest) = Inr (i, rest)"
proof (cases "i < 0")
  case False
  with assms show ?thesis using parse_number_show_nat[of rest "nat i"] by (simp add: show_int_def)
next
  case True
  let ?n = "nat (- i)"
  have d: "list_all is_digit (show_nat ?n)" by (rule show_nat_digits)
  have tw: "takeWhile is_digit (show_nat ?n @ rest) = show_nat ?n"
    and dw: "dropWhile is_digit (show_nat ?n @ rest) = rest"
    using takeWhile_digits[OF d value_end_not_digit[OF assms(1)]] by simp_all
  have r: "\<not> (rest \<noteq> [] \<and> (hd rest = CHR ''.'' \<or> hd rest = CHR ''e'' \<or> hd rest = CHR ''E''))"
    using assms(1) by (auto simp: value_end_def)
  have v: "digits_val (show_nat ?n) = - i" using True by (simp add: digits_val_show_nat)
  show ?thesis
    using True tw dw r v assms(2) show_nat_nonempty[of ?n] show_nat_no_leading_zero[of ?n]
    by (simp add: parse_number_def Let_def show_int_def)
qed

lemma hex_val_hex_digit: "d < 16 \<Longrightarrow> hex_val (hex_digit d) = Some d"
  by (simp add: hex_val_def hex_digit_def Let_def)

lemma hex_val_zero: "hex_val (CHR ''0'') = Some 0"
  by (simp add: hex_val_def)

lemma parse_chars_escape:
  "parse_chars (escape_char c @ following) = cons_result c (parse_chars following)"
proof -
  consider (q) "c = dquote" | (b) "c = backslash"
    | (named) "c \<noteq> dquote" "c \<noteq> backslash" "c \<in> {CHR 0x08, CHR 0x0C, CHR 0x0A, CHR 0x0D, CHR 0x09}"
    | (ctl) "c \<noteq> dquote" "c \<noteq> backslash" "c \<notin> {CHR 0x08, CHR 0x0C, CHR 0x0A, CHR 0x0D, CHR 0x09}"
        "(of_char c :: nat) < 32"
    | (plain) "c \<noteq> dquote" "c \<noteq> backslash" "c \<notin> {CHR 0x08, CHR 0x0C, CHR 0x0A, CHR 0x0D, CHR 0x09}"
        "\<not> (of_char c :: nat) < 32"
    by blast
  then show ?thesis
  proof cases
    case q
    then show ?thesis by (simp add: escape_char_def unescape_def)
  next
    case b
    then show ?thesis by (simp add: escape_char_def unescape_def)
  next
    case named
    then show ?thesis by (auto simp: escape_char_def unescape_def)
  next
    case ctl
    let ?n = "of_char c :: nat"
    have e: "escape_char c = [backslash, CHR ''u'', CHR ''0'', CHR ''0'', hex_digit (?n div 16), hex_digit (?n mod 16)]"
      using ctl by (simp add: escape_char_def)
    have h1: "hex_val (hex_digit (?n div 16)) = Some (?n div 16)"
      using ctl(4) by (intro hex_val_hex_digit) simp
    have h2: "hex_val (hex_digit (?n mod 16)) = Some (?n mod 16)"
      by (intro hex_val_hex_digit) simp
    have v: "?n div 16 * 16 + ?n mod 16 = ?n" by simp
    have lt: "?n < 256" using ctl(4) by simp
    have h4: "hex4 (CHR ''0'' # CHR ''0'' # hex_digit (?n div 16) # hex_digit (?n mod 16) # following) = Some ?n"
      using h1 h2 v by (simp add: hex4_def hex_val_zero)
    show ?thesis
      unfolding e using h4 lt by simp
  next
    case plain
    then show ?thesis by (simp add: escape_char_def)
  qed
qed

lemma parse_chars_escaped:
  "parse_chars (concat (map escape_char s) @ dquote # rest) = Inr (s, rest)"
proof (induction s)
  case Nil
  show ?case by simp
next
  case (Cons c s)
  have "parse_chars (concat (map escape_char (c # s)) @ dquote # rest)
      = parse_chars (escape_char c @ (concat (map escape_char s) @ dquote # rest))" by simp
  also have "\<dots> = cons_result c (parse_chars (concat (map escape_char s) @ dquote # rest))"
    by (rule parse_chars_escape)
  finally show ?case using Cons by (simp add: cons_result_def)
qed

lemma parse_chars_quote: "parse_chars (tl (quote s) @ rest) = Inr (s, rest)"
  using parse_chars_escaped[of s rest] by (simp add: quote_def)

lemma skip_ws_Cons: "\<not> is_ws c \<Longrightarrow> skip_ws (c # cs) = c # cs"
  by (simp add: skip_ws_def)

lemma is_digit_not_ws: "is_digit c \<Longrightarrow> \<not> is_ws c"
  by (auto simp: is_digit_def is_ws_def)

lemma show_int_first: "\<exists>c cs. show_int i = c # cs \<and> (c = CHR ''-'' \<or> is_digit c)"
proof (cases "i < 0")
  case True
  then show ?thesis by (simp add: show_int_def)
next
  case False
  obtain c cs where s: "show_nat (nat i) = c # cs"
    using show_nat_nonempty[of "nat i"] by (cases "show_nat (nat i)") auto
  with show_nat_digits[of "nat i"] have "is_digit c" by simp
  with s False show ?thesis by (simp add: show_int_def)
qed

lemma stringify_first: "\<exists>c cs. JSON_stringify v = c # cs \<and> value_start c"
proof (cases v)
  case (JNum i)
  obtain c cs where s: "show_int i = c # cs" and d: "c = CHR ''-'' \<or> is_digit c"
    using show_int_first by blast
  from d have "value_start c" by (auto simp: value_start_def is_ws_def is_digit_def)
  with s JNum show ?thesis by simp
qed (simp_all add: value_start_def is_ws_def quote_def)

lemma parse_value_atom_JNull:
  "parse_value (Suc n) (JSON_stringify JNull @ rest) = Inr (JNull, rest)"
  by (simp add: skip_ws_def is_ws_def is_digit_def parse_literal_def)

lemma parse_value_atom_JBool:
  "parse_value (Suc n) (JSON_stringify (JBool b) @ rest) = Inr (JBool b, rest)"
  by (simp add: skip_ws_def is_ws_def is_digit_def parse_literal_def)

lemma parse_value_atom_JStr:
  "parse_value (Suc n) (JSON_stringify (JStr s) @ rest) = Inr (JStr s, rest)"
  using parse_chars_escaped[of s rest]
  by (simp add: skip_ws_def is_ws_def is_digit_def quote_def)

lemma parse_value_atom_JNum:
  assumes "value_end rest" "\<bar>i\<bar> \<le> 2 ^ 53 - 1"
  shows "parse_value (Suc n) (JSON_stringify (JNum i) @ rest) = Inr (JNum i, rest)"
proof -
  obtain c cs where s: "show_int i = c # cs" and d: "c = CHR ''-'' \<or> is_digit c"
    using show_int_first by blast
  from d have w: "\<not> is_ws c" by (auto simp: is_ws_def is_digit_def)
  have p: "parse_number (c # cs @ rest) = Inr (i, rest)"
    using parse_number_show_int[OF assms] s by simp
  show ?thesis using s d w p by (simp add: skip_ws_Cons)
qed

lemma join_comma_Cons: "xs \<noteq> [] \<Longrightarrow> join_comma (x # xs) = x @ CHR '','' # join_comma xs"
  by (cases xs) simp_all

lemma value_end_simps:
  "value_end (CHR '','' # r)" "value_end (CHR '']'' # r)" "value_end (CHR ''}'' # r)" "value_end []"
  by (simp_all add: value_end_def)

lemma skip_ws_delims:
  "skip_ws (CHR '','' # r) = CHR '','' # r" "skip_ws (CHR '']'' # r) = CHR '']'' # r"
  "skip_ws (CHR ''}'' # r) = CHR ''}'' # r" "skip_ws (CHR '':'' # r) = CHR '':'' # r"
  "skip_ws (dquote # r) = dquote # r"
  by (simp_all add: skip_ws_def is_ws_def)

lemma parse_elements_stringify:
  assumes "vs \<noteq> []"
    and "\<And>v rest n. v \<in> set vs \<Longrightarrow> value_end rest \<Longrightarrow> weight v \<le> n \<Longrightarrow>
           parse_value n (JSON_stringify v @ rest) = Inr (v, rest)"
    and "sum_list (map (\<lambda>v. Suc (weight v)) vs) \<le> n"
  shows "parse_elements n acc (join_comma (map JSON_stringify vs) @ CHR '']'' # rest)
           = Inr (JArr (acc @ vs), rest)"
  using assms
proof (induction vs arbitrary: acc n rule: list_nonempty_induct)
  case (single x)
  from single(2) obtain k where n: "n = Suc k" and k: "weight x \<le> k" by (cases n) simp_all
  have "parse_value k (JSON_stringify x @ CHR '']'' # rest) = Inr (x, CHR '']'' # rest)"
    using single(1)[of x "CHR '']'' # rest" k] k by (simp add: value_end_simps)
  then show ?case by (simp add: n skip_ws_delims)
next
  case (cons x xs)
  from cons(4) obtain k where n: "n = Suc k" and k: "weight x \<le> k"
    and ks: "sum_list (map (\<lambda>v. Suc (weight v)) xs) \<le> k" by (cases n) simp_all
  let ?tail = "join_comma (map JSON_stringify xs) @ CHR '']'' # rest"
  have j: "join_comma (map JSON_stringify (x # xs)) @ CHR '']'' # rest
            = JSON_stringify x @ CHR '','' # ?tail"
    using cons(1) by (simp add: join_comma_Cons)
  have v: "parse_value k (JSON_stringify x @ CHR '','' # ?tail) = Inr (x, CHR '','' # ?tail)"
    using cons(3)[of x "CHR '','' # ?tail" k] k by (simp add: value_end_simps)
  have r: "parse_elements k (acc @ [x]) ?tail = Inr (JArr ((acc @ [x]) @ xs), rest)"
    using cons(3) ks by (intro cons(2)) simp_all
  show ?case unfolding j n using v r by (simp add: skip_ws_delims)
qed

lemma obj_set_fresh: "k \<notin> fst ` set ms \<Longrightarrow> obj_set ms k v = ms @ [(k, v)]"
  by (simp add: obj_set_def)

lemma parse_chars_key:
  "parse_chars (tl (quote k @ following)) = Inr (k, following)"
  using parse_chars_escaped[of k following] by (simp add: quote_def)

lemma quote_Cons: "quote k @ following = dquote # tl (quote k @ following)"
  by (simp add: quote_def)

lemma parse_members_stringify:
  assumes "ms \<noteq> []"
    and "\<And>m rest n. m \<in> set ms \<Longrightarrow> value_end rest \<Longrightarrow> weight (snd m) \<le> n \<Longrightarrow>
           parse_value n (JSON_stringify (snd m) @ rest) = Inr (snd m, rest)"
    and "sum_list (map (\<lambda>m. Suc (weight (snd m))) ms) \<le> n"
    and "distinct (map fst (acc @ ms))"
    and "\<forall>m \<in> set ms. \<not> numeric_key (fst m)"
  shows "parse_members n acc
           (join_comma (map (\<lambda>m. quote (fst m) @ CHR '':'' # JSON_stringify (snd m)) ms) @ CHR ''}'' # rest)
           = Inr (JObj (acc @ ms), rest)"
  using assms
proof (induction ms arbitrary: acc n rule: list_nonempty_induct)
  case (single m)
  obtain k v where m: "m = (k, v)" by (cases m)
  from single(2) obtain j where n: "n = Suc j" and j: "weight v \<le> j" by (cases n) (simp_all add: m)
  have fresh: "k \<notin> fst ` set acc" using single(3) by (simp add: m)
  have nk: "\<not> numeric_key k" using single(4) by (simp add: m)
  have pv: "parse_value j (JSON_stringify v @ CHR ''}'' # rest) = Inr (v, CHR ''}'' # rest)"
    using single(1)[of m "CHR ''}'' # rest" j] j by (simp add: m value_end_simps)
  have "parse_members (Suc j) acc (dquote # tl (quote k @ CHR '':'' # JSON_stringify v @ CHR ''}'' # rest))
          = Inr (JObj (acc @ [(k, v)]), rest)"
    using nk pv by (simp add: skip_ws_delims parse_chars_key obj_set_fresh[OF fresh])
  then show ?case by (simp add: m n quote_Cons[symmetric])
next
  case (cons m ms)
  obtain k v where m: "m = (k, v)" by (cases m)
  from cons(4) obtain j where n: "n = Suc j" and j: "weight v \<le> j"
    and js: "sum_list (map (\<lambda>m. Suc (weight (snd m))) ms) \<le> j" by (cases n) (simp_all add: m)
  have fresh: "k \<notin> fst ` set acc" using cons(5) by (simp add: m)
  have nk: "\<not> numeric_key k" using cons(6) by (simp add: m)
  let ?tail = "join_comma (map (\<lambda>m. quote (fst m) @ CHR '':'' # JSON_stringify (snd m)) ms) @ CHR ''}'' # rest"
  have jn: "join_comma (map (\<lambda>m. quote (fst m) @ CHR '':'' # JSON_stringify (snd m)) (m # ms)) @ CHR ''}'' # rest
            = quote k @ CHR '':'' # JSON_stringify v @ CHR '','' # ?tail"
    using cons(1) by (simp add: join_comma_Cons m)
  have pv: "parse_value j (JSON_stringify v @ CHR '','' # ?tail) = Inr (v, CHR '','' # ?tail)"
    using cons(3)[of m "CHR '','' # ?tail" j] j by (simp add: m value_end_simps)
  have d: "distinct (map fst ((acc @ [(k, v)]) @ ms))" using cons(5) by (simp add: m)
  have r: "parse_members j (acc @ [(k, v)]) ?tail = Inr (JObj ((acc @ [(k, v)]) @ ms), rest)"
    using cons(3) js d cons(6) by (intro cons(2)) simp_all
  have "parse_members (Suc j) acc (dquote # tl (quote k @ CHR '':'' # JSON_stringify v @ CHR '','' # ?tail))
          = Inr (JObj (acc @ (k, v) # ms), rest)"
    using nk pv r by (simp add: skip_ws_delims parse_chars_key obj_set_fresh[OF fresh])
  then show ?case unfolding jn n by (simp add: m quote_Cons[symmetric])
qed

lemma parse_value_array:
  assumes "\<And>v rest n. v \<in> set vs \<Longrightarrow> value_end rest \<Longrightarrow> weight v \<le> n \<Longrightarrow>
           parse_value n (JSON_stringify v @ rest) = Inr (v, rest)"
    and "weight (JArr vs) \<le> n"
  shows "parse_value n (JSON_stringify (JArr vs) @ rest) = Inr (JArr vs, rest)"
proof -
  from assms(2) obtain k where n: "n = Suc k" and k: "sum_list (map (\<lambda>v. Suc (weight v)) vs) \<le> k"
    by (cases n) simp_all
  have b: "skip_ws (CHR ''['' # r) = CHR ''['' # r" for r by (simp add: skip_ws_def is_ws_def)
  show ?thesis
  proof (cases vs)
    case Nil
    then show ?thesis by (simp add: n b skip_ws_delims is_digit_def)
  next
    case (Cons x xs)
    let ?body = "join_comma (map JSON_stringify vs) @ CHR '']'' # rest"
    obtain c cs where f: "JSON_stringify x = c # cs" and s: "value_start c"
      using stringify_first by blast
    obtain bs where body: "?body = c # bs"
      using f Cons by (cases xs) simp_all
    have sk: "skip_ws ?body = ?body" and nb: "c \<noteq> CHR '']''"
      using s by (simp_all add: body skip_ws_Cons value_start_def)
    have "parse_elements k [] ?body = Inr (JArr ([] @ vs), rest)"
      using assms(1) k Cons by (intro parse_elements_stringify) simp_all
    then have pe: "parse_elements k [] (c # bs) = Inr (JArr vs, rest)" by (simp add: body)
    have "parse_value (Suc k) (CHR ''['' # ?body) = Inr (JArr vs, rest)"
      using sk nb pe unfolding body by (simp add: b is_digit_def)
    then show ?thesis by (simp add: n)
  qed
qed

lemma parse_value_object:
  assumes "\<And>m rest n. m \<in> set ms \<Longrightarrow> value_end rest \<Longrightarrow> weight (snd m) \<le> n \<Longrightarrow>
           parse_value n (JSON_stringify (snd m) @ rest) = Inr (snd m, rest)"
    and "weight (JObj ms) \<le> n"
    and "distinct (map fst ms)"
    and "\<forall>m \<in> set ms. \<not> numeric_key (fst m)"
  shows "parse_value n (JSON_stringify (JObj ms) @ rest) = Inr (JObj ms, rest)"
proof -
  from assms(2) obtain k where n: "n = Suc k"
    and k: "sum_list (map (\<lambda>m. Suc (weight (snd m))) ms) \<le> k"
    by (cases n) simp_all
  have b: "skip_ws (CHR ''{'' # r) = CHR ''{'' # r" for r by (simp add: skip_ws_def is_ws_def)
  show ?thesis
  proof (cases ms)
    case Nil
    then show ?thesis by (simp add: n b skip_ws_delims is_digit_def)
  next
    case (Cons x xs)
    let ?body = "join_comma (map (\<lambda>m. quote (fst m) @ CHR '':'' # JSON_stringify (snd m)) ms) @ CHR ''}'' # rest"
    obtain bs where body: "?body = dquote # bs"
      using Cons by (cases xs) (simp_all add: quote_def)
    have "parse_members k [] ?body = Inr (JObj ([] @ ms), rest)"
      using assms(1,3,4) k Cons by (intro parse_members_stringify) simp_all
    then have pe: "parse_members k [] (dquote # bs) = Inr (JObj ms, rest)" by (simp add: body)
    have "parse_value (Suc k) (CHR ''{'' # ?body) = Inr (JObj ms, rest)"
      using pe unfolding body by (simp add: b skip_ws_delims is_digit_def)
    then show ?thesis by (simp add: n)
  qed
qed

lemma parse_value_stringify:
  "js_value v \<Longrightarrow> value_end rest \<Longrightarrow> weight v \<le> n \<Longrightarrow>
     parse_value n (JSON_stringify v @ rest) = Inr (v, rest)"
proof (induction v arbitrary: rest n)
  case JNull
  then obtain k where "n = Suc k" by (cases n) simp_all
  then show ?case by (simp only: parse_value_atom_JNull)
next
  case (JBool b)
  then obtain k where "n = Suc k" by (cases n) simp_all
  then show ?case by (simp only: parse_value_atom_JBool)
next
  case (JNum i)
  then obtain k where "n = Suc k" by (cases n) simp_all
  with JNum show ?case by (simp only: parse_value_atom_JNum js_value.simps)
next
  case (JStr s)
  then obtain k where "n = Suc k" by (cases n) simp_all
  then show ?case by (simp only: parse_value_atom_JStr)
next
  case (JArr vs)
  have "parse_value n (JSON_stringify v @ rest) = Inr (v, rest)"
    if "v \<in> set vs" "value_end rest" "weight v \<le> n" for v rest n
    using JArr.IH[OF that(1) _ that(2,3)] JArr.prems(1) that(1) by (simp add: list_all_iff)
  then show ?case using JArr.prems(3) by (rule parse_value_array)
next
  case (JObj ms)
  have ih: "parse_value n (JSON_stringify (snd m) @ rest) = Inr (snd m, rest)"
    if "m \<in> set ms" "value_end rest" "weight (snd m) \<le> n" for m rest n
  proof -
    have "snd m \<in> Basic_BNFs.snds m" by (cases m) simp
    moreover have "js_value (snd m)" using JObj.prems(1) that(1) by (simp add: list_all_iff)
    ultimately show ?thesis using JObj.IH[OF that(1) _ _ that(2,3)] by blast
  qed
  have d: "distinct (map fst ms)" and nk: "\<forall>m \<in> set ms. \<not> numeric_key (fst m)"
    using JObj.prems(1) by (simp_all add: list_all_iff)
  show ?case using ih JObj.prems(3) d nk by (rule parse_value_object)
qed

lemma join_comma_length:
  "sum_list (map (\<lambda>l. Suc (length l)) ls) \<le> Suc (length (join_comma ls))"
  by (induction ls rule: join_comma.induct) simp_all

lemma weight_le_length: "weight v \<le> length (JSON_stringify v)"
proof (induction v)
  case (JNum i)
  obtain c cs where "show_int i = c # cs" using show_int_first by blast
  then show ?case by simp
next
  case (JStr s)
  show ?case by (simp add: quote_def)
next
  case (JArr vs)
  have "sum_list (map (\<lambda>v. Suc (weight v)) vs) \<le> sum_list (map (\<lambda>v. Suc (length (JSON_stringify v))) vs)"
    using JArr by (intro sum_list_mono) simp
  also have "\<dots> = sum_list (map (\<lambda>l. Suc (length l)) (map JSON_stringify vs))"
    by (simp add: comp_def)
  also have "\<dots> \<le> Suc (length (join_comma (map JSON_stringify vs)))" by (rule join_comma_length)
  finally show ?case by simp
next
  case (JObj ms)
  let ?f = "\<lambda>m. quote (fst m) @ CHR '':'' # JSON_stringify (snd m)"
  have "weight (snd m) \<le> length (?f m)" if "m \<in> set ms" for m
  proof -
    have "snd m \<in> Basic_BNFs.snds m" by (cases m) simp
    with JObj that have "weight (snd m) \<le> length (JSON_stringify (snd m))" by blast
    then show ?thesis by simp
  qed
  then have "sum_list (map (\<lambda>m. Suc (weight (snd m))) ms) \<le> sum_list (map (\<lambda>m. Suc (length (?f m))) ms)"
    by (intro sum_list_mono) simp
  also have "\<dots> = sum_list (map (\<lambda>l. Suc (length l)) (map ?f ms))"
    by (simp add: comp_def)
  also have "\<dots> \<le> Suc (length (join_comma (map ?f ms)))" by (rule join_comma_length)
  finally show ?case by simp
qed simp_all

lemma JSON_roundtrip: "js_value v \<Longrightarrow> JSON_parse (JSON_stringify v) = Inr v"
proof -
  assume v: "js_value v"
  have "weight v \<le> 2 * length (JSON_stringify v) + 2" using weight_le_length[of v] by simp
  then have "parse_value (2 * length (JSON_stringify v) + 2) (JSON_stringify v @ []) = Inr (v, [])"
    using v by (intro parse_value_stringify) (simp_all add: value_end_simps)
  then show ?thesis by (simp add: JSON_parse_def skip_ws_def)
qed

subsection \<open>The parser never uses up its recursion bound\<close>

lemma skip_ws_length: "length (skip_ws s) \<le> length s"
  by (simp add: skip_ws_def length_dropWhile_le)

lemma cons_result_Inr:
  "cons_result c r = Inr (x, rest) \<Longrightarrow> \<exists>y. r = Inr (y, rest)"
  by (auto simp: cons_result_def split: sum.splits)

lemma cons_result_Exhausted: "cons_result c r = Inl Exhausted \<Longrightarrow> r = Inl Exhausted"
  by (auto simp: cons_result_def split: sum.splits)

lemma parse_chars_consumes:
  "parse_chars s \<noteq> Inl Exhausted \<and> (\<forall>x rest. parse_chars s = Inr (x, rest) \<longrightarrow> length rest < length s)"
proof (induction s rule: length_induct)
  case (1 s)
  show ?case
  proof (cases s)
    case Nil
    then show ?thesis by simp
  next
    case (Cons c cs)
    have ih: "parse_chars t \<noteq> Inl Exhausted \<and> (\<forall>x rest. parse_chars t = Inr (x, rest) \<longrightarrow> length rest < length t)"
      if "length t \<le> length cs" for t
      using 1 that Cons by simp
    have step: "cons_result d (parse_chars t) \<noteq> Inl Exhausted \<and>
        (\<forall>x rest. cons_result d (parse_chars t) = Inr (x, rest) \<longrightarrow> length rest < length s)"
      if "length t \<le> length cs" for t d
    proof (intro conjI allI impI)
      show "cons_result d (parse_chars t) \<noteq> Inl Exhausted"
        using ih[OF that] cons_result_Exhausted by blast
      fix x rest assume "cons_result d (parse_chars t) = Inr (x, rest)"
      then obtain y where "parse_chars t = Inr (y, rest)" using cons_result_Inr by blast
      with ih[OF that] have "length rest < length t" by blast
      with that Cons show "length rest < length s" by simp
    qed
    consider (q) "c = dquote" | (b) "c \<noteq> dquote" "c = backslash"
      | (ctl) "c \<noteq> dquote" "c \<noteq> backslash" "(of_char c :: nat) < 32"
      | (plain) "c \<noteq> dquote" "c \<noteq> backslash" "\<not> (of_char c :: nat) < 32"
      by blast
    then show ?thesis
    proof cases
      case q
      with Cons show ?thesis by simp
    next
      case ctl
      with Cons show ?thesis by simp
    next
      case plain
      with Cons step[of cs c] show ?thesis by simp
    next
      case b
      show ?thesis
      proof (cases cs)
        case Nil
        with b Cons show ?thesis by simp
      next
        case cs: (Cons e cs1)
        show ?thesis
        proof (cases "e = CHR ''u''")
          case False
          show ?thesis
          proof (cases "unescape e")
            case None
            with False b Cons cs show ?thesis by simp
          next
            case (Some d)
            with False b Cons cs step[of cs1 d] show ?thesis by simp
          qed
        next
          case u: True
          show ?thesis
          proof (cases "hex4 cs1")
            case None
            with u b Cons cs show ?thesis by simp
          next
            case (Some n)
            have "length (drop 4 cs1) \<le> length cs" using cs by simp
            from step[OF this, of "char_of n"] Some u b Cons cs show ?thesis by simp
          qed
        qed
      qed
    qed
  qed
qed

lemma parse_number_consumes:
  "parse_number s \<noteq> Inl Exhausted \<and> (\<forall>i rest. parse_number s = Inr (i, rest) \<longrightarrow> length rest < length s)"
proof -
  have d: "length (dropWhile is_digit t) < length t" if "takeWhile is_digit t \<noteq> []" for t
  proof -
    have "length (takeWhile is_digit t) + length (dropWhile is_digit t) = length t"
      by (metis length_append takeWhile_dropWhile_id)
    with that show ?thesis by (cases "takeWhile is_digit t") simp_all
  qed
  show ?thesis
  proof (cases "s \<noteq> [] \<and> hd s = CHR ''-''")
    case True
    then have "length (tl s) \<le> length s" by simp
    with True d[of "tl s"] show ?thesis
      by (auto simp: parse_number_def Let_def)
  next
    case False
    with d[of s] show ?thesis by (auto simp: parse_number_def Let_def)
  qed
qed

lemma parse_literal_consumes:
  "parse_literal lit v s \<noteq> Inl Exhausted \<and>
   (\<forall>x rest. parse_literal lit v s = Inr (x, rest) \<longrightarrow> length rest \<le> length s)"
  by (simp add: parse_literal_def)

lemma skip_ws_ConsD: "skip_ws s = c # cs \<Longrightarrow> length cs < length s"
  using skip_ws_length[of s] by simp

lemma parse_elements_step:
  assumes V1: "\<And>s. 2 * length s < n \<Longrightarrow> parse_value n s \<noteq> Inl Exhausted"
    and V2: "\<And>s v r. 2 * length s < n \<Longrightarrow> parse_value n s = Inr (v, r) \<Longrightarrow> length r < length s"
    and E1: "\<And>acc s. 2 * length s + 1 < n \<Longrightarrow> parse_elements n acc s \<noteq> Inl Exhausted"
    and E2: "\<And>acc s v r. 2 * length s + 1 < n \<Longrightarrow> parse_elements n acc s = Inr (v, r) \<Longrightarrow> length r < length s"
    and b: "2 * length s + 1 < Suc n"
  shows "parse_elements (Suc n) acc s \<noteq> Inl Exhausted \<and>
         (\<forall>v r. parse_elements (Suc n) acc s = Inr (v, r) \<longrightarrow> length r < length s)"
proof -
  from b have bv: "2 * length s < n" by simp
  show ?thesis
  proof (cases "parse_value n s")
    case (Inl e)
    with V1[OF bv] show ?thesis by auto
  next
    case (Inr vr)
    obtain v rest where vr: "vr = (v, rest)" by (cases vr)
    from V2[OF bv] Inr vr have lr: "length rest < length s" by simp
    show ?thesis
    proof (cases "skip_ws rest")
      case Nil
      with Inr vr show ?thesis by simp
    next
      case (Cons c cs)
      from skip_ws_ConsD[OF Cons] lr have lc: "length cs + 2 \<le> length s" by simp
      then have be: "2 * length cs + 1 < n" using bv by simp
      consider (comma) "c = CHR '',''" | (close) "c \<noteq> CHR '',''" "c = CHR '']''"
        | (other) "c \<noteq> CHR '',''" "c \<noteq> CHR '']''" by blast
      then show ?thesis
      proof cases
        case comma
        have "parse_elements (Suc n) acc s = parse_elements n (acc @ [v]) cs"
          using Inr vr Cons comma by simp
        moreover have "length r < length s" if "parse_elements n (acc @ [v]) cs = Inr (x, r)" for x r
          using E2[OF be that] lc by simp
        ultimately show ?thesis using E1[OF be, of "acc @ [v]"] by auto
      next
        case close
        with Inr vr Cons lc show ?thesis by simp
      next
        case other
        with Inr vr Cons show ?thesis by simp
      qed
    qed
  qed
qed

lemma parse_members_step:
  assumes V1: "\<And>s. 2 * length s < n \<Longrightarrow> parse_value n s \<noteq> Inl Exhausted"
    and V2: "\<And>s v r. 2 * length s < n \<Longrightarrow> parse_value n s = Inr (v, r) \<Longrightarrow> length r < length s"
    and M1: "\<And>acc s. 2 * length s + 1 < n \<Longrightarrow> parse_members n acc s \<noteq> Inl Exhausted"
    and M2: "\<And>acc s v r. 2 * length s + 1 < n \<Longrightarrow> parse_members n acc s = Inr (v, r) \<Longrightarrow> length r < length s"
    and b: "2 * length s + 1 < Suc n"
  shows "parse_members (Suc n) acc s \<noteq> Inl Exhausted \<and>
         (\<forall>v r. parse_members (Suc n) acc s = Inr (v, r) \<longrightarrow> length r < length s)"
proof (cases "skip_ws s")
  case Nil
  then show ?thesis by simp
next
  case s1: (Cons q s1)
  from skip_ws_ConsD[OF s1] have l1: "length s1 < length s" .
  show ?thesis
  proof (cases "q = dquote")
    case False
    with s1 show ?thesis by simp
  next
    case q: True
    show ?thesis
    proof (cases "parse_chars s1")
      case (Inl e)
      with parse_chars_consumes[of s1] s1 q show ?thesis by auto
    next
      case (Inr kr)
      obtain k s2 where kr: "kr = (k, s2)" by (cases kr)
      from parse_chars_consumes[of s1] Inr kr have l2: "length s2 < length s1" by simp
      show ?thesis
      proof (cases "numeric_key k")
        case True
        with s1 q Inr kr show ?thesis by simp
      next
        case nk: False
        show ?thesis
        proof (cases "skip_ws s2")
          case Nil
          with s1 q Inr kr nk show ?thesis by simp
        next
          case s3: (Cons colon s3)
          from skip_ws_ConsD[OF s3] have l3: "length s3 < length s2" .
          show ?thesis
          proof (cases "colon = CHR '':''")
            case False
            with s1 q Inr kr nk s3 show ?thesis by simp
          next
            case col: True
            have bv: "2 * length s3 < n" using b l1 l2 l3 by simp
            show ?thesis
            proof (cases "parse_value n s3")
              case (Inl e)
              with V1[OF bv] s1 q Inr kr nk s3 col show ?thesis by auto
            next
              case pv: (Inr vr)
              obtain v s4 where vr: "vr = (v, s4)" by (cases vr)
              from V2[OF bv] pv vr have l4: "length s4 < length s3" by simp
              show ?thesis
              proof (cases "skip_ws s4")
                case Nil
                with s1 q Inr kr nk s3 col pv vr show ?thesis by simp
              next
                case cs: (Cons c cs)
                from skip_ws_ConsD[OF cs] have l5: "length cs < length s4" .
                have be: "2 * length cs + 1 < n" using b l1 l2 l3 l4 l5 by simp
                consider (comma) "c = CHR '',''" | (close) "c \<noteq> CHR '',''" "c = CHR ''}''"
                  | (other) "c \<noteq> CHR '',''" "c \<noteq> CHR ''}''" by blast
                then show ?thesis
                proof cases
                  case comma
                  have "parse_members (Suc n) acc s = parse_members n (obj_set acc k v) cs"
                    using s1 q Inr kr nk s3 col pv vr cs comma by simp
                  moreover have "length r < length s" if "parse_members n (obj_set acc k v) cs = Inr (x, r)" for x r
                    using M2[OF be that] l1 l2 l3 l4 l5 by simp
                  ultimately show ?thesis using M1[OF be, of "obj_set acc k v"] by auto
                next
                  case close
                  with s1 q Inr kr nk s3 col pv vr cs l1 l2 l3 l4 l5 show ?thesis by simp
                next
                  case other
                  with s1 q Inr kr nk s3 col pv vr cs show ?thesis by simp
                qed
              qed
            qed
          qed
        qed
      qed
    qed
  qed
qed

lemma parse_value_step:
  assumes E1: "\<And>acc s. 2 * length s + 1 < n \<Longrightarrow> parse_elements n acc s \<noteq> Inl Exhausted"
    and E2: "\<And>acc s v r. 2 * length s + 1 < n \<Longrightarrow> parse_elements n acc s = Inr (v, r) \<Longrightarrow> length r < length s"
    and M1: "\<And>acc s. 2 * length s + 1 < n \<Longrightarrow> parse_members n acc s \<noteq> Inl Exhausted"
    and M2: "\<And>acc s v r. 2 * length s + 1 < n \<Longrightarrow> parse_members n acc s = Inr (v, r) \<Longrightarrow> length r < length s"
    and b: "2 * length s < Suc n"
  shows "parse_value (Suc n) s \<noteq> Inl Exhausted \<and>
         (\<forall>v r. parse_value (Suc n) s = Inr (v, r) \<longrightarrow> length r < length s)"
proof (cases "skip_ws s")
  case Nil
  then show ?thesis by simp
next
  case s1: (Cons c cs)
  from skip_ws_ConsD[OF s1] have l1: "length cs < length s" .
  have lc: "length (c # cs) \<le> length s" using l1 by simp
  consider (num) "c = CHR ''-'' \<or> is_digit c"
    | (str) "\<not> (c = CHR ''-'' \<or> is_digit c)" "c = dquote"
    | (lit) "\<not> (c = CHR ''-'' \<or> is_digit c)" "c \<noteq> dquote" "c = CHR ''n'' \<or> c = CHR ''t'' \<or> c = CHR ''f''"
    | (arr) "\<not> (c = CHR ''-'' \<or> is_digit c)" "c \<noteq> dquote" "c \<noteq> CHR ''n''" "c \<noteq> CHR ''t''" "c \<noteq> CHR ''f''"
        "c = CHR ''[''"
    | (obj) "\<not> (c = CHR ''-'' \<or> is_digit c)" "c \<noteq> dquote" "c \<noteq> CHR ''n''" "c \<noteq> CHR ''t''" "c \<noteq> CHR ''f''"
        "c \<noteq> CHR ''[''" "c = CHR ''{''"
    | (other) "\<not> (c = CHR ''-'' \<or> is_digit c)" "c \<noteq> dquote" "c \<noteq> CHR ''n''" "c \<noteq> CHR ''t''" "c \<noteq> CHR ''f''"
        "c \<noteq> CHR ''[''" "c \<noteq> CHR ''{''"
    by blast
  then show ?thesis
  proof cases
    case num
    have v: "parse_value (Suc n) s =
        (case parse_number (c # cs) of Inl e \<Rightarrow> Inl e | Inr (i, rest) \<Rightarrow> Inr (JNum i, rest))"
      using s1 num by simp
    show ?thesis
    proof (cases "parse_number (c # cs)")
      case (Inl e)
      with parse_number_consumes[of "c # cs"] v show ?thesis by auto
    next
      case (Inr ir)
      obtain i rest where "ir = (i, rest)" by (cases ir)
      with parse_number_consumes[of "c # cs"] Inr v lc show ?thesis by auto
    qed
  next
    case str
    have v: "parse_value (Suc n) s =
        (case parse_chars cs of Inl e \<Rightarrow> Inl e | Inr (str, rest) \<Rightarrow> Inr (JStr str, rest))"
      using s1 str by simp
    show ?thesis
    proof (cases "parse_chars cs")
      case (Inl e)
      with parse_chars_consumes[of cs] v show ?thesis by auto
    next
      case (Inr xr)
      obtain x rest where "xr = (x, rest)" by (cases xr)
      with parse_chars_consumes[of cs] Inr v l1 show ?thesis by auto
    qed
  next
    case lit
    from lit(3) have "\<exists>l x. parse_value (Suc n) s = parse_literal l x cs"
    proof (elim disjE)
      assume "c = CHR ''n''"
      with s1 have "parse_value (Suc n) s = parse_literal ''ull'' JNull cs" by (simp add: is_digit_def)
      then show ?thesis by blast
    next
      assume "c = CHR ''t''"
      with s1 have "parse_value (Suc n) s = parse_literal ''rue'' (JBool True) cs" by (simp add: is_digit_def)
      then show ?thesis by blast
    next
      assume "c = CHR ''f''"
      with s1 have "parse_value (Suc n) s = parse_literal ''alse'' (JBool False) cs" by (simp add: is_digit_def)
      then show ?thesis by blast
    qed
    then obtain l x where v: "parse_value (Suc n) s = parse_literal l x cs" by blast
    with parse_literal_consumes[of l x cs] l1 show ?thesis by auto
  next
    case arr
    show ?thesis
    proof (cases "skip_ws cs")
      case Nil
      with s1 arr show ?thesis by simp
    next
      case ds: (Cons d ds)
      from skip_ws_length[of cs] ds have l2: "length (d # ds) \<le> length cs" by simp
      show ?thesis
      proof (cases "d = CHR '']''")
        case True
        with s1 arr ds l1 l2 show ?thesis by simp
      next
        case False
        have be: "2 * length (d # ds) + 1 < n" using b l1 l2 by simp
        have "parse_value (Suc n) s = parse_elements n [] (d # ds)"
          using s1 arr ds False by simp
        moreover have "length r < length s" if "parse_elements n [] (d # ds) = Inr (x, r)" for x r
          using E2[OF be that] l1 l2 by simp
        ultimately show ?thesis using E1[OF be, of "[]"] by auto
      qed
    qed
  next
    case obj
    show ?thesis
    proof (cases "skip_ws cs")
      case Nil
      with s1 obj show ?thesis by simp
    next
      case ds: (Cons d ds)
      from skip_ws_length[of cs] ds have l2: "length (d # ds) \<le> length cs" by simp
      show ?thesis
      proof (cases "d = CHR ''}''")
        case True
        with s1 obj ds l1 l2 show ?thesis by simp
      next
        case False
        have be: "2 * length (d # ds) + 1 < n" using b l1 l2 by simp
        have "parse_value (Suc n) s = parse_members n [] (d # ds)"
          using s1 obj ds False by simp
        moreover have "length r < length s" if "parse_members n [] (d # ds) = Inr (x, r)" for x r
          using M2[OF be that] l1 l2 by simp
        ultimately show ?thesis using M1[OF be, of "[]"] by auto
      qed
    qed
  next
    case other
    with s1 show ?thesis by simp
  qed
qed

lemma parse_fuel_suffices:
  "(\<forall>s. 2 * length s < n \<longrightarrow>
       parse_value n s \<noteq> Inl Exhausted \<and> (\<forall>v r. parse_value n s = Inr (v, r) \<longrightarrow> length r < length s)) \<and>
   (\<forall>acc s. 2 * length s + 1 < n \<longrightarrow>
       parse_elements n acc s \<noteq> Inl Exhausted \<and>
       (\<forall>v r. parse_elements n acc s = Inr (v, r) \<longrightarrow> length r < length s)) \<and>
   (\<forall>acc s. 2 * length s + 1 < n \<longrightarrow>
       parse_members n acc s \<noteq> Inl Exhausted \<and>
       (\<forall>v r. parse_members n acc s = Inr (v, r) \<longrightarrow> length r < length s))"
proof (induction n)
  case 0
  show ?case by simp
next
  case (Suc n)
  show ?case
  proof (intro conjI allI impI)
    fix s :: string assume "2 * length s < Suc n"
    with Suc have "parse_value (Suc n) s \<noteq> Inl Exhausted \<and>
         (\<forall>v r. parse_value (Suc n) s = Inr (v, r) \<longrightarrow> length r < length s)"
      by (intro parse_value_step) blast+
    then show "parse_value (Suc n) s \<noteq> Inl Exhausted"
      and "\<And>v r. parse_value (Suc n) s = Inr (v, r) \<Longrightarrow> length r < length s" by blast+
  next
    fix acc and s :: string assume "2 * length s + 1 < Suc n"
    with Suc have "parse_elements (Suc n) acc s \<noteq> Inl Exhausted \<and>
         (\<forall>v r. parse_elements (Suc n) acc s = Inr (v, r) \<longrightarrow> length r < length s)"
      by (intro parse_elements_step) blast+
    then show "parse_elements (Suc n) acc s \<noteq> Inl Exhausted"
      and "\<And>v r. parse_elements (Suc n) acc s = Inr (v, r) \<Longrightarrow> length r < length s" by blast+
  next
    fix acc and s :: string assume "2 * length s + 1 < Suc n"
    with Suc have "parse_members (Suc n) acc s \<noteq> Inl Exhausted \<and>
         (\<forall>v r. parse_members (Suc n) acc s = Inr (v, r) \<longrightarrow> length r < length s)"
      by (intro parse_members_step) blast+
    then show "parse_members (Suc n) acc s \<noteq> Inl Exhausted"
      and "\<And>v r. parse_members (Suc n) acc s = Inr (v, r) \<Longrightarrow> length r < length s" by blast+
  qed
qed

lemma JSON_parse_not_exhausted: "JSON_parse s \<noteq> Inl Exhausted"
proof -
  have "2 * length s < 2 * length s + 2" by simp
  with parse_fuel_suffices[of "2 * length s + 2"]
  have "parse_value (2 * length s + 2) s \<noteq> Inl Exhausted" by blast
  then show ?thesis by (auto simp: JSON_parse_def split: sum.splits)
qed

section \<open>Properties of the document converter\<close>





lemma loader_returned_length:
  "length (returned (loader_step m e)) = length (returned m) + (if e = CallLoad then 1 else 0)"
proof (cases e)
  case CallLoad
  then show ?thesis by (simp add: loadPdfJs_def split: option.splits prod.splits)
next
  case (ImportResolved l)
  then show ?thesis by (simp add: import_resolved_def split: option.splits prod.splits promise_state.splits)
next
  case (ImportRejected x)
  then show ?thesis by (simp add: import_rejected_def split: option.splits prod.splits promise_state.splits)
qed

lemma loader_run_snoc: "loader_run (es @ [e]) = loader_step (loader_run es) e"
  by (simp add: loader_run_def)

lemma single_source_init: "single_source loader_init"
  by (simp add: single_source_def loader_init_def)

lemma from_single_load_pending:
  "list_all (from_single_load Pending) rs \<Longrightarrow> list_all (from_single_load p) rs"
proof (induction rs)
  case Nil then show ?case by simp
next
  case (Cons r rs) then show ?case by (cases r) simp_all
qed

lemma single_source_call: "single_source m \<Longrightarrow> single_source (loadPdfJs m)"
proof (cases "loadPromise m")
  case None
  assume "single_source m"
  with None show ?thesis by (simp add: single_source_def loadPdfJs_def)
next
  case (Some ip)
  assume inv: "single_source m"
  obtain i p where ip: "ip = (i, p)" by (cases ip)
  show ?thesis
  proof (cases "pdfjsLib m")
    case None
    with inv Some ip show ?thesis by (simp add: single_source_def loadPdfJs_def)
  next
    case (Some l)
    with inv \<open>loadPromise m = Some ip\<close> ip show ?thesis by (auto simp: single_source_def loadPdfJs_def)
  qed
qed

lemma single_source_resolved: "single_source m \<Longrightarrow> single_source (import_resolved l m)"
proof (cases "loadPromise m")
  case None
  assume "single_source m"
  with None show ?thesis by (simp add: import_resolved_def)
next
  case (Some ip)
  assume inv: "single_source m"
  obtain i p where ip: "ip = (i, p)" by (cases ip)
  show ?thesis
  proof (cases p)
    case Pending
    with inv Some ip show ?thesis
      by (simp add: single_source_def import_resolved_def from_single_load_pending)
  next
    case (Fulfilled x)
    with inv Some ip show ?thesis by (simp add: import_resolved_def)
  next
    case (Failed x)
    with inv Some ip show ?thesis by (simp add: import_resolved_def)
  qed
qed

lemma single_source_rejected: "single_source m \<Longrightarrow> single_source (import_rejected e m)"
proof (cases "loadPromise m")
  case None
  assume "single_source m"
  with None show ?thesis by (simp add: import_rejected_def)
next
  case (Some ip)
  assume inv: "single_source m"
  obtain i p where ip: "ip = (i, p)" by (cases ip)
  show ?thesis
  proof (cases p)
    case Pending
    with inv Some ip show ?thesis
      by (simp add: single_source_def import_rejected_def from_single_load_pending)
  next
    case (Fulfilled x)
    with inv Some ip show ?thesis by (simp add: import_rejected_def)
  next
    case (Failed x)
    with inv Some ip show ?thesis by (simp add: import_rejected_def)
  qed
qed

lemma single_source_step: "single_source m \<Longrightarrow> single_source (loader_step m e)"
  by (cases e) (simp_all add: single_source_call single_source_resolved single_source_rejected)

lemma single_source_run: "single_source (loader_run es)"
proof (induction es rule: rev_induct)
  case Nil
  show ?case by (simp add: loader_run_def single_source_init)
next
  case (snoc e es)
  then show ?case by (simp add: loader_run_snoc single_source_step)
qed

lemma loader_run_returned_length:
  "length (returned (loader_run es)) = length (filter (\<lambda>e. e = CallLoad) es)"
proof (induction es rule: rev_induct)
  case Nil
  show ?case by (simp add: loader_run_def loader_init_def)
next
  case (snoc e es)
  then show ?case by (simp add: loader_run_snoc loader_returned_length)
qed

text \<open>
  Claim C6.  Whatever the interleaving of \<open>convert()\<close> calls entering the loader with the
  settling of the dynamic import, the \<open>import(...)\<close> expression is executed at most once
  (exactly once as soon as one call was made), every call gets a result, and each result
  is either the promise created by that single import or the library instance this
  promise was fulfilled with.
\<close>

theorem loadPdfJs_loads_at_most_once:
  "started (loader_run es) \<le> 1 \<and>
   (CallLoad \<in> set es \<longrightarrow> started (loader_run es) = 1) \<and>
   length (returned (loader_run es)) = length (filter (\<lambda>e. e = CallLoad) es) \<and>
   (\<forall>r \<in> set (returned (loader_run es)).
      r = Shared 1 \<or> (\<exists>l. r = Cached l \<and> loadPromise (loader_run es) = Some (1, Fulfilled l)))"
proof -
  let ?m = "loader_run es"
  have inv: "single_source ?m" by (rule single_source_run)
  have len: "length (returned ?m) = length (filter (\<lambda>e. e = CallLoad) es)"
    by (rule loader_run_returned_length)
  show ?thesis
  proof (cases "loadPromise ?m")
    case None
    with inv have s: "started ?m = 0" and r: "returned ?m = []" by (simp_all add: single_source_def)
    from r len have "filter (\<lambda>e. e = CallLoad) es = []" by simp
    then have "CallLoad \<notin> set es" by (auto simp: filter_empty_conv)
    with s r len show ?thesis by simp
  next
    case (Some ip)
    obtain i p where ip: "ip = (i, p)" by (cases ip)
    from inv Some ip have s: "started ?m = 1" and i: "i = 1"
      and all: "list_all (from_single_load p) (returned ?m)"
      by (simp_all add: single_source_def)
    have "r = Shared 1 \<or> (\<exists>l. r = Cached l \<and> loadPromise ?m = Some (1, Fulfilled l))"
      if "r \<in> set (returned ?m)" for r
    proof -
      from all that have "from_single_load p r" by (simp add: list_all_iff)
      then show ?thesis using Some ip i by (cases r) simp_all
    qed
    with s len show ?thesis by simp
  qed
qed

theorem loadPdfJs_loads_at_most_once_witness:
  "CallLoad \<in> set [CallLoad, CallLoad, ImportResolved 7, CallLoad] \<and>
   returned (loader_run [CallLoad, CallLoad, ImportResolved 7, CallLoad]) = [Shared 1, Shared 1, Cached 7] \<and>
   loadPromise (loader_run [CallLoad, CallLoad, ImportResolved 7, CallLoad]) = Some (1, Fulfilled 7) \<and>
   started (loader_run [CallLoad, CallLoad, ImportResolved 7, CallLoad]) = 1"
  using loadPdfJs_loads_at_most_once [of "[CallLoad, CallLoad, ImportResolved 7, CallLoad]"]
  by (simp add: loader_run_def loader_init_def loadPdfJs_def import_resolved_def)





section \<open>Properties of the facade\<close>


lemma backend_calls_append: "backend_calls (xs @ ys) = backend_calls xs @ backend_calls ys"
  by (induction xs rule: backend_calls.induct) simp_all

lemma facade_calls_append: "facade_calls (xs @ ys) = facade_calls xs @ facade_calls ys"
  by (induction xs rule: facade_calls.induct) simp_all

lemma convert_calls_append: "convert_calls (xs @ ys) = convert_calls xs @ convert_calls ys"
  by (induction xs rule: convert_calls.induct) simp_all

lemma log_simps:
  "trace (log e w) = trace w @ [e]" "store (log e w) = store w" "window_puter (log e w) = window_puter w"
  "getPuter (log e w) = getPuter w"
  "interval_active (log e w) = interval_active w" "timeout_pending (log e w) = timeout_pending w"
  by (simp_all add: log_def getPuter_def)

lemma history_log:
  "history (log (Backend c) w) = history w @ [c]"
  "history (log (Facade f) w) = history w"
  "history (log (Convert x) w) = history w"
  "history (log (Navigate n) w) = history w"
  by (simp_all add: history_def log_def backend_calls_append)

lemma setError_simps:
  "trace (setError m w) = trace w" "window_puter (setError m w) = window_puter w"
  "getPuter (setError m w) = getPuter w" "history (setError m w) = history w"
  "error (store (setError m w)) = Some m" "isLoading (store (setError m w)) = False"
  "puterReady (store (setError m w)) = puterReady (store w)"
  "user (auth (store (setError m w))) = None" "isAuthenticated (auth (store (setError m w))) = False"
  "getUser (auth (store (setError m w))) = getUser (auth (store w))"
  by (simp_all add: setError_def getPuter_def history_def)

lemma as_js_unavailable: "as_js f (Resolved None, w) = (Resolved Undefined, w)"
  by (simp add: as_js_def)

lemma invoke_unavailable:
  assumes "getPuter w = None"
  shows "invoke op w = (Resolved Undefined, setError ''Puter.js not available'' (log (Facade op) w))"
  using assms
  by (cases op)
     (simp_all add: writeFile_def readFile_def readDir_def upload_def deleteFile_def chat_def feedback_def
        img2txt_def getKV_def setKV_def deleteKV_def listKV_def flushKV_def log_simps as_js_unavailable)

lemma as_js_some_result: "as_js f (some_result r, w) = (settled_js f r, w)"
  by (cases r) (simp_all add: as_js_def some_result_def settled_js_def)

lemma as_js_option:
  "as_js f (r, w) = (settled_js (\<lambda>r. case r of None \<Rightarrow> Undefined | Some x \<Rightarrow> f x) r, w)"
proof (cases r)
  case (Rejected e)
  then show ?thesis by (simp add: as_js_def settled_js_def)
next
  case (Resolved x)
  then show ?thesis by (cases x) (simp_all add: as_js_def settled_js_def)
qed

lemma settled_js_some_result: "settled_js (case_option a f) (some_result r) = settled_js f r"
  by (cases r) (simp_all add: some_result_def settled_js_def)

lemma invoke_available:
  assumes "getPuter w = Some p"
  shows "invoke op w =
           (respond p (history w) (backend_call_of op),
            log (Backend (backend_call_of op)) (log (Facade op) w))"
proof (cases op)
  case (Fs_delete x)
  with assms show ?thesis
    by (cases "fs_delete p (history w) x")
       (simp_all add: deleteFile_def log_simps history_log settled_js_def)
next
  case (Kv_list pat rv)
  with assms show ?thesis
    by (simp add: listKV_def log_simps history_log as_js_option settled_js_some_result Let_def)
qed (use assms in \<open>simp_all add: writeFile_def readFile_def readDir_def upload_def chat_def feedback_def
        img2txt_def getKV_def setKV_def deleteKV_def flushKV_def log_simps history_log
        as_js_option settled_js_some_result\<close>)

lemma start_loading_simps:
  "trace (start_loading w) = trace w" "history (start_loading w) = history w"
  "getPuter (start_loading w) = getPuter w"
  by (simp_all add: start_loading_def history_def getPuter_def)

lemma set_auth_simps:
  "user (auth (store (set_auth u a w))) = u" "isAuthenticated (auth (store (set_auth u a w))) = a"
  "error (store (set_auth u a w)) = error (store w)"
  by (simp_all add: set_auth_def)

lemma refreshUser_resolved:
  assumes "getPuter w = Some p" "auth_getUser p (history w) = Resolved u"
  shows "refreshUser w = set_auth (Some u) True (log (Backend AuthGetUser) (start_loading w))"
  using assms by (simp add: refreshUser_def start_loading_simps Let_def)

lemma refreshUser_rejected:
  assumes "getPuter w = Some p" "auth_getUser p (history w) = Rejected err"
  shows "refreshUser w = setError (error_message err ''Failed to refresh user'')
                           (log (Backend AuthGetUser) (start_loading w))"
  using assms by (simp add: refreshUser_def start_loading_simps Let_def)

text \<open>
  Claim C4, as amended.  An exposed operation that finds \<open>window.puter\<close> absent
  (\<open>getPuter()\<close> returns \<open>null\<close>) fails at once: the error is set to "Puter.js not
  available", the session is cleared, the result is \<open>undefined\<close> and nothing is sent to
  the backend.  When \<open>window.puter\<close> is present the call goes to the backend and its
  answer is the result; the flag \<open>puterReady\<close> is not consulted.
\<close>

theorem facade_fails_fast_without_backend:
  "(getPuter w = None \<longrightarrow>
      fst (invoke op w) = Resolved Undefined \<and>
      error (store (snd (invoke op w))) = Some ''Puter.js not available'' \<and>
      user (auth (store (snd (invoke op w)))) = None \<and>
      \<not> isAuthenticated (auth (store (snd (invoke op w)))) \<and>
      backend_calls (trace (snd (invoke op w))) = backend_calls (trace w)) \<and>
   (\<forall>p. getPuter w = Some p \<longrightarrow>
      fst (invoke op w) = respond p (history w) (backend_call_of op) \<and>
      backend_calls (trace (snd (invoke op w))) = backend_calls (trace w) @ [backend_call_of op])"
proof (intro conjI impI allI)
  assume n: "getPuter w = None"
  note u = invoke_unavailable[OF n, of op]
  show "fst (invoke op w) = Resolved Undefined" by (simp add: u)
  show "error (store (snd (invoke op w))) = Some ''Puter.js not available''"
    by (simp add: u setError_simps)
  show "user (auth (store (snd (invoke op w)))) = None" by (simp add: u setError_simps)
  show "\<not> isAuthenticated (auth (store (snd (invoke op w))))" by (simp add: u setError_simps)
  show "backend_calls (trace (snd (invoke op w))) = backend_calls (trace w)"
    by (simp add: u setError_simps log_simps backend_calls_append)
next
  fix p assume s: "getPuter w = Some p"
  note a = invoke_available[OF s, of op]
  show "fst (invoke op w) = respond p (history w) (backend_call_of op)" by (simp add: a)
  show "backend_calls (trace (snd (invoke op w))) = backend_calls (trace w) @ [backend_call_of op]"
    by (simp add: a log_simps backend_calls_append)
qed

theorem facade_fails_fast_without_backend_witness:
  "getPuter (fresh_world None) = None \<and>
   invoke (Kv_set ''resume:1'' ''{}'') (fresh_world None)
     = (Resolved Undefined,
        setError ''Puter.js not available'' (log (Facade (Kv_set ''resume:1'' ''{}'')) (fresh_world None))) \<and>
   backend_calls (trace (snd (invoke (Kv_set ''resume:1'' ''{}'') (fresh_world None)))) = [] \<and>
   getPuter (fresh_world (Some (answering_puter sample_feedback))) = Some (answering_puter sample_feedback) \<and>
   backend_calls (trace (snd (invoke (Kv_set ''resume:1'' ''{}'')
      (fresh_world (Some (answering_puter sample_feedback)))))) = [KvSet ''resume:1'' ''{}'']"
  using facade_fails_fast_without_backend [of "fresh_world None" "Kv_set ''resume:1'' ''{}''"]
    facade_fails_fast_without_backend [of "fresh_world (Some (answering_puter sample_feedback))"
      "Kv_set ''resume:1'' ''{}''"]
  by (simp add: fresh_world_def getPuter_def setKV_def log_def as_js_def setError_def)

theorem facade_not_ready_counterexample:
  "\<not> puterReady (store (fresh_world (Some (answering_puter sample_feedback)))) \<and>
   fst (invoke (Fs_readDir ''./'') (fresh_world (Some (answering_puter sample_feedback))))
     = Resolved (ItemsValue []) \<and>
   backend_calls (trace (snd (invoke (Fs_readDir ''./'') (fresh_world (Some (answering_puter sample_feedback))))))
     = [FsReaddir ''./''] \<and>
   error (store (snd (invoke (Fs_readDir ''./'') (fresh_world (Some (answering_puter sample_feedback)))))) = None"
  by (simp add: fresh_world_def initial_store_def getPuter_def readDir_def log_def as_js_def
      answering_puter_def history_def)

text \<open>
  Claim C2, as amended.  When \<open>window.puter\<close> is present and the backend call of an
  exposed operation rejects, the operation's promise rejects with the same value: the
  store is left as it was (the error string is not set, the session is not cleared), and
  the backend was called exactly once.
\<close>

theorem facade_rejection_reaches_caller:
  assumes "getPuter w = Some p"
    and "respond p (history w) (backend_call_of op) = Rejected e"
  shows "fst (invoke op w) = Rejected e \<and>
         store (snd (invoke op w)) = store w \<and>
         backend_calls (trace (snd (invoke op w))) = backend_calls (trace w) @ [backend_call_of op]"
  using assms(2) by (simp add: invoke_available[OF assms(1)] log_simps backend_calls_append)

lemma signed_in_rejecting:
  "signed_in_world rejecting_puter =
     \<lparr>window_puter = Some rejecting_puter,
      store = \<lparr>isLoading = False, error = None, puterReady = False,
               auth = \<lparr>user = Some \<lparr>user_uuid = ''u-1'', username = ''ada''\<rparr>, isAuthenticated = True,
                       getUser = Captured (Some \<lparr>user_uuid = ''u-1'', username = ''ada''\<rparr>)\<rparr>\<rparr>,
      interval_active = False, timeout_pending = False,
      trace = [Backend AuthIsSignedIn, Backend AuthGetUser]\<rparr>"
  by (simp add: signed_in_world_def checkAuthStatus_def fresh_world_def getPuter_def start_loading_def
      initial_store_def rejecting_puter_def answering_puter_def log_def set_auth_def Let_def)

lemma rejecting_puter_kv_set: "kv_set rejecting_puter h k v = Rejected (Error ''quota exceeded'')"
  by (simp add: rejecting_puter_def)

lemma rejecting_puter_getUser:
  "auth_getUser rejecting_puter h = Resolved \<lparr>user_uuid = ''u-1'', username = ''ada''\<rparr>"
  by (simp add: rejecting_puter_def answering_puter_def)

theorem facade_rejection_reaches_caller_witness:
  "getPuter (signed_in_world rejecting_puter) = Some rejecting_puter \<and>
   respond rejecting_puter (history (signed_in_world rejecting_puter))
     (backend_call_of (Kv_set ''resume:1'' ''{}'')) = Rejected (Error ''quota exceeded'') \<and>
   fst (invoke (Kv_set ''resume:1'' ''{}'') (signed_in_world rejecting_puter)) = Rejected (Error ''quota exceeded'') \<and>
   store (snd (invoke (Kv_set ''resume:1'' ''{}'') (signed_in_world rejecting_puter)))
     = store (signed_in_world rejecting_puter)"
proof -
  have g: "getPuter (signed_in_world rejecting_puter) = Some rejecting_puter"
    by (simp add: signed_in_rejecting getPuter_def)
  have r: "respond rejecting_puter (history (signed_in_world rejecting_puter))
     (backend_call_of (Kv_set ''resume:1'' ''{}'')) = Rejected (Error ''quota exceeded'')"
    by (simp add: rejecting_puter_kv_set settled_js_def)
  from facade_rejection_reaches_caller [OF g r] g r show ?thesis by simp
qed

theorem facade_rejection_counterexample:
  "fst (invoke (Kv_set ''resume:1'' ''{}'') (signed_in_world rejecting_puter)) = Rejected (Error ''quota exceeded'') \<and>
   error (store (snd (invoke (Kv_set ''resume:1'' ''{}'') (signed_in_world rejecting_puter)))) = None \<and>
   user (auth (store (snd (invoke (Kv_set ''resume:1'' ''{}'') (signed_in_world rejecting_puter)))))
     = Some \<lparr>user_uuid = ''u-1'', username = ''ada''\<rparr> \<and>
   isAuthenticated (auth (store (snd (invoke (Kv_set ''resume:1'' ''{}'') (signed_in_world rejecting_puter)))))"
proof -
  have g: "getPuter (signed_in_world rejecting_puter) = Some rejecting_puter"
    by (simp add: signed_in_rejecting getPuter_def)
  have i: "invoke (Kv_set ''resume:1'' ''{}'') (signed_in_world rejecting_puter) =
      (Rejected (Error ''quota exceeded''),
       log (Backend (KvSet ''resume:1'' ''{}'')) (log (Facade (Kv_set ''resume:1'' ''{}'')) (signed_in_world rejecting_puter)))"
    by (simp add: invoke_available[OF g] rejecting_puter_kv_set settled_js_def)
  show ?thesis unfolding i by (simp add: log_simps signed_in_rejecting)
qed

text \<open>
  Claim C5, as amended.  \<open>refreshUser()\<close> re-fetches the user.  When the fetch succeeds it
  stores the fetched user, sets the authenticated flag to true whatever it was before,
  and leaves the error cleared.  When the fetch fails, or when \<open>window.puter\<close> is absent,
  the session degrades to anonymous (no user, flag false) with the error string set.
\<close>

theorem refreshUser_sets_authenticated:
  "(\<forall>p u. getPuter w = Some p \<and> auth_getUser p (history w) = Resolved u \<longrightarrow>
      user (auth (store (refreshUser w))) = Some u \<and>
      isAuthenticated (auth (store (refreshUser w))) \<and>
      error (store (refreshUser w)) = None) \<and>
   (\<forall>p err. getPuter w = Some p \<and> auth_getUser p (history w) = Rejected err \<longrightarrow>
      user (auth (store (refreshUser w))) = None \<and>
      \<not> isAuthenticated (auth (store (refreshUser w))) \<and>
      error (store (refreshUser w)) = Some (error_message err ''Failed to refresh user'')) \<and>
   (getPuter w = None \<longrightarrow>
      user (auth (store (refreshUser w))) = None \<and>
      \<not> isAuthenticated (auth (store (refreshUser w))) \<and>
      error (store (refreshUser w)) = Some ''Puter.js not available'')"
proof (intro conjI allI impI)
  fix p u assume "getPuter w = Some p \<and> auth_getUser p (history w) = Resolved u"
  then have r: "refreshUser w = set_auth (Some u) True (log (Backend AuthGetUser) (start_loading w))"
    by (simp add: refreshUser_resolved)
  show "user (auth (store (refreshUser w))) = Some u" by (simp add: r set_auth_simps)
  show "isAuthenticated (auth (store (refreshUser w)))" by (simp add: r set_auth_simps)
  show "error (store (refreshUser w)) = None"
    by (simp add: r set_auth_simps log_simps start_loading_def)
next
  fix p err assume "getPuter w = Some p \<and> auth_getUser p (history w) = Rejected err"
  then have r: "refreshUser w = setError (error_message err ''Failed to refresh user'')
                           (log (Backend AuthGetUser) (start_loading w))"
    by (simp add: refreshUser_rejected)
  show "user (auth (store (refreshUser w))) = None" by (simp add: r setError_simps)
  show "\<not> isAuthenticated (auth (store (refreshUser w)))" by (simp add: r setError_simps)
  show "error (store (refreshUser w)) = Some (error_message err ''Failed to refresh user'')"
    by (simp add: r setError_simps)
next
  assume n: "getPuter w = None"
  then have r: "refreshUser w = setError ''Puter.js not available'' w" by (simp add: refreshUser_def)
  show "user (auth (store (refreshUser w))) = None" by (simp add: r setError_simps)
  show "\<not> isAuthenticated (auth (store (refreshUser w)))" by (simp add: r setError_simps)
  show "error (store (refreshUser w)) = Some ''Puter.js not available''" by (simp add: r setError_simps)
qed

theorem refreshUser_sets_authenticated_witness:
  "getPuter (signed_in_world rejecting_puter) = Some rejecting_puter \<and>
   auth_getUser rejecting_puter (history (signed_in_world rejecting_puter))
     = Resolved \<lparr>user_uuid = ''u-1'', username = ''ada''\<rparr> \<and>
   isAuthenticated (auth (store (signed_in_world rejecting_puter))) \<and>
   isAuthenticated (auth (store (refreshUser (signed_in_world rejecting_puter)))) \<and>
   getPuter (fresh_world None) = None \<and>
   error (store (refreshUser (fresh_world None))) = Some ''Puter.js not available''"
proof -
  have g: "getPuter (signed_in_world rejecting_puter) = Some rejecting_puter"
    by (simp add: signed_in_rejecting getPuter_def)
  have a: "isAuthenticated (auth (store (signed_in_world rejecting_puter)))"
    by (simp add: signed_in_rejecting)
  have n: "getPuter (fresh_world None) = None" by (simp add: fresh_world_def getPuter_def)
  from refreshUser_sets_authenticated [of "signed_in_world rejecting_puter"]
    refreshUser_sets_authenticated [of "fresh_world None"] g a n
  show ?thesis by (simp add: rejecting_puter_getUser)
qed

theorem refreshUser_flag_counterexample:
  "\<not> isAuthenticated (auth (store (fresh_world (Some (answering_puter sample_feedback))))) \<and>
   auth_getUser (answering_puter sample_feedback) (history (fresh_world (Some (answering_puter sample_feedback))))
     = Resolved \<lparr>user_uuid = ''u-1'', username = ''ada''\<rparr> \<and>
   isAuthenticated (auth (store (refreshUser (fresh_world (Some (answering_puter sample_feedback))))))"
  by (simp add: fresh_world_def initial_store_def refreshUser_def getPuter_def start_loading_def
      answering_puter_def set_auth_def log_def Let_def)

section \<open>Properties of the analysis pipeline\<close>

lemma upload_available:
  "getPuter w = Some p \<Longrightarrow>
   upload u w = (fs_upload p (history w) u, log (Backend (FsUpload u)) (log (Facade (Fs_upload u)) w))"
  by (simp add: upload_def log_simps history_log)

lemma upload_unavailable:
  "getPuter w = None \<Longrightarrow>
   upload u w = (Resolved None, setError ''Puter.js not available'' (log (Facade (Fs_upload u)) w))"
  by (simp add: upload_def log_simps)

lemma setKV_available:
  "getPuter w = Some p \<Longrightarrow>
   setKV k v w = (some_result (kv_set p (history w) k v), log (Backend (KvSet k v)) (log (Facade (Kv_set k v)) w))"
  by (simp add: setKV_def log_simps history_log)

lemma feedback_available:
  "getPuter w = Some p \<Longrightarrow>
   feedback pth msg w =
     (ai_chat p (history w) (feedback_messages pth msg) feedback_options None None,
      log (Backend (AiChat (feedback_messages pth msg) feedback_options None None))
        (log (Facade (Ai_feedback pth msg)) w))"
  by (simp add: feedback_def log_simps history_log)

lemma set_property_feedback:
  "set_property (resume_data i rp ip cn jt jd fb) ''feedback'' parsed = resume_data i rp ip cn jt jd parsed"
  by (simp add: set_property_def resume_data_def obj_set_def)

lemma handleAnalyze_complete:
  assumes p: "getPuter w = Some p"
    and up1: "fs_upload p (history w) (Files [file]) = Resolved (Some uploadedFile)"
    and conv: "res_file (convertPdfToImage (fresh_url env) (render env) file) = Some img"
    and up2: "fs_upload p (history w @ [FsUpload (Files [file])]) (Files [img]) = Resolved (Some uploadedImage)"
    and kv1: "kv_set p (history w @ [FsUpload (Files [file]), FsUpload (Files [img])])
                (''resume:'' @ randomUUID env)
                (JSON_stringify (resume_data (randomUUID env) (path uploadedFile) (path uploadedImage) cn jt jd (JStr [])))
              = Resolved b1"
    and ai: "ai_chat p (history w @ [FsUpload (Files [file]), FsUpload (Files [img]),
                  KvSet (''resume:'' @ randomUUID env)
                    (JSON_stringify (resume_data (randomUUID env) (path uploadedFile) (path uploadedImage) cn jt jd (JStr [])))])
                (feedback_messages (path uploadedFile) (prepareInstructions env jt jd)) feedback_options None None
              = Resolved (Some resp)"
    and ftext: "feedbackText resp = Inr text"
    and parse: "JSON_parse (to_string text) = Inr parsed"
    and kv2: "kv_set p (history w @ [FsUpload (Files [file]), FsUpload (Files [img]),
                  KvSet (''resume:'' @ randomUUID env)
                    (JSON_stringify (resume_data (randomUUID env) (path uploadedFile) (path uploadedImage) cn jt jd (JStr []))),
                  AiChat (feedback_messages (path uploadedFile) (prepareInstructions env jt jd)) feedback_options None None])
                (''resume:'' @ randomUUID env)
                (JSON_stringify (resume_data (randomUUID env) (path uploadedFile) (path uploadedImage) cn jt jd parsed))
              = Resolved b2"
  shows "handleAnalyze env cn jt jd file (ui, w) =
           (Returned (),
            ui\<lparr>isProcessing := True, statusText := ''Analysis complete, redirecting...''\<rparr>,
            w\<lparr>trace := trace w @ complete_run env cn jt jd file img uploadedFile uploadedImage parsed\<rparr>)"
  using assms
  by (simp add: handleAnalyze_def Let_def upload_available setKV_available feedback_available
      log_simps history_log some_result_def set_property_feedback)
     (simp add: complete_run_def log_def Let_def)

lemmas pipeline_simps =
  handleAnalyze_def Let_def upload_available setKV_available feedback_available
  log_simps history_log some_result_def set_property_feedback

lemma handleAnalyze_completeD:
  assumes run: "handleAnalyze env cn jt jd file (ui, w) = (Returned (), ui', w')"
    and fin: "statusText ui' = ''Analysis complete, redirecting...''"
  obtains p uploadedFile img uploadedImage b1 resp ftxt parsed b2 where
    "getPuter w = Some p"
    "fs_upload p (history w) (Files [file]) = Resolved (Some uploadedFile)"
    "res_file (convertPdfToImage (fresh_url env) (render env) file) = Some img"
    "fs_upload p (history w @ [FsUpload (Files [file])]) (Files [img]) = Resolved (Some uploadedImage)"
    "kv_set p (history w @ [FsUpload (Files [file]), FsUpload (Files [img])])
                (''resume:'' @ randomUUID env)
                (JSON_stringify (resume_data (randomUUID env) (path uploadedFile) (path uploadedImage) cn jt jd (JStr [])))
              = Resolved b1"
    "ai_chat p (history w @ [FsUpload (Files [file]), FsUpload (Files [img]),
                  KvSet (''resume:'' @ randomUUID env)
                    (JSON_stringify (resume_data (randomUUID env) (path uploadedFile) (path uploadedImage) cn jt jd (JStr [])))])
                (feedback_messages (path uploadedFile) (prepareInstructions env jt jd)) feedback_options None None
              = Resolved (Some resp)"
    "feedbackText resp = Inr ftxt"
    "JSON_parse (to_string ftxt) = Inr parsed"
    "kv_set p (history w @ [FsUpload (Files [file]), FsUpload (Files [img]),
                  KvSet (''resume:'' @ randomUUID env)
                    (JSON_stringify (resume_data (randomUUID env) (path uploadedFile) (path uploadedImage) cn jt jd (JStr []))),
                  AiChat (feedback_messages (path uploadedFile) (prepareInstructions env jt jd)) feedback_options None None])
                (''resume:'' @ randomUUID env)
                (JSON_stringify (resume_data (randomUUID env) (path uploadedFile) (path uploadedImage) cn jt jd parsed))
              = Resolved b2"
proof (cases "getPuter w")
  case None
  with run fin show ?thesis by (simp add: handleAnalyze_def upload_unavailable Let_def) auto
next
  case p: (Some p)
  show ?thesis
  proof (cases "fs_upload p (history w) (Files [file])")
    case (Rejected e)
    with run p show ?thesis by (simp add: pipeline_simps)
  next
    case r1: (Resolved handle)
    show ?thesis
    proof (cases handle)
    case None
    with run fin p r1 show ?thesis by (simp add: pipeline_simps) auto
    next
    case (Some uploadedFile)
    with r1 have up1: "fs_upload p (history w) (Files [file]) = Resolved (Some uploadedFile)" by simp
    show ?thesis
    proof (cases "res_file (convertPdfToImage (fresh_url env) (render env) file)")
      case None
      with run fin p up1 show ?thesis by (simp add: pipeline_simps) auto
    next
      case conv: (Some img)
      show ?thesis
      proof (cases "fs_upload p (history w @ [FsUpload (Files [file])]) (Files [img])")
        case (Rejected e)
        with run p up1 conv show ?thesis by (simp add: pipeline_simps)
      next
        case r2: (Resolved imageHandle)
        show ?thesis
        proof (cases imageHandle)
        case None
        with run fin p up1 conv r2 show ?thesis by (simp add: pipeline_simps) auto
        next
        case (Some uploadedImage)
        with r2 have up2: "fs_upload p (history w @ [FsUpload (Files [file])]) (Files [img]) = Resolved (Some uploadedImage)"
          by simp
        let ?key = "''resume:'' @ randomUUID env"
        let ?data = "resume_data (randomUUID env) (path uploadedFile) (path uploadedImage) cn jt jd"
        show ?thesis
        proof (cases "kv_set p (history w @ [FsUpload (Files [file]), FsUpload (Files [img])])
                        ?key (JSON_stringify (?data (JStr [])))")
          case (Rejected e)
          with run p up1 conv up2 show ?thesis by (simp add: pipeline_simps)
        next
          case kv1: (Resolved b1)
          let ?h4 = "history w @ [FsUpload (Files [file]), FsUpload (Files [img]),
                       KvSet ?key (JSON_stringify (?data (JStr [])))]"
          let ?msgs = "feedback_messages (path uploadedFile) (prepareInstructions env jt jd)"
          show ?thesis
          proof (cases "ai_chat p ?h4 ?msgs feedback_options None None")
            case (Rejected e)
            with run p up1 conv up2 kv1 show ?thesis by (simp add: pipeline_simps)
          next
            case ai: (Resolved r)
            show ?thesis
            proof (cases r)
              case None
              with run fin p up1 conv up2 kv1 ai show ?thesis by (simp add: pipeline_simps) auto
            next
              case r: (Some resp)
              show ?thesis
              proof (cases "feedbackText resp")
                case (Inl e)
                with run p up1 conv up2 kv1 ai r show ?thesis by (simp add: pipeline_simps)
              next
                case ft: (Inr ftxt)
                show ?thesis
                proof (cases "JSON_parse (to_string ftxt)")
                  case (Inl e)
                  with run p up1 conv up2 kv1 ai r ft show ?thesis
                    by (cases e) (simp_all add: pipeline_simps)
                next
                  case pr: (Inr parsed)
                  show ?thesis
                  proof (cases "kv_set p (?h4 @ [AiChat ?msgs feedback_options None None])
                                  ?key (JSON_stringify (?data parsed))")
                    case (Rejected e)
                    with run p up1 conv up2 kv1 ai r ft pr show ?thesis by (simp add: pipeline_simps)
                  next
                    case kv2: (Resolved b2)
                    show ?thesis
                      using that[OF p up1 conv up2 kv1 _ ft pr] ai r kv2 by simp
                  qed
                qed
              qed
            qed
          qed
        qed
        qed
      qed
    qed
    qed
  qed
qed

lemma js_value_resume_data: "js_value (resume_data i rp ip cn jt jd fb) = js_value fb"
  by (simp add: resume_data_def numeric_key_def is_digit_def)

lemma resume_data_roundtrip:
  "js_value fb \<Longrightarrow>
   JSON_parse (JSON_stringify (resume_data i rp ip cn jt jd fb)) = Inr (resume_data i rp ip cn jt jd fb)"
  by (rule JSON_roundtrip) (simp add: js_value_resume_data)

lemma get_property_feedback: "get_property (resume_data i rp ip cn jt jd fb) ''feedback'' = Some fb"
  by (simp add: get_property_def resume_data_def)

lemma kv_apply_set_mem: "(k, v) \<in> set (kv_apply s (KvSet k v))"
proof (cases "k \<in> fst ` set s")
  case True
  then obtain e where "e \<in> set s" "fst e = k" by auto
  then have "(k, v) \<in> (\<lambda>e. if fst e = k then (k, v) else e) ` set s" by force
  with True show ?thesis by simp
next
  case False
  then show ?thesis by simp
qed

lemma kv_contents_snoc: "kv_contents s0 (h @ [c]) = kv_apply (kv_contents s0 h) c"
  by (simp add: kv_contents_def)

lemma glob_match_resumes: "glob_match resumes_pattern (''resume:'' @ u)"
  by (simp add: glob_match_def resumes_pattern_def)

lemma listed_after_set:
  assumes "glob_match pattern k"
  shows "\<lparr>kv_key = k, kv_value = v\<rparr> \<in> set (kv_service_list pattern (kv_contents s0 (h @ [KvSet k v])))"
proof -
  have "(k, v) \<in> set (filter (\<lambda>e. glob_match pattern (fst e)) (kv_contents s0 (h @ [KvSet k v])))"
    using assms kv_apply_set_mem[of k v "kv_contents s0 h"] by (simp add: kv_contents_snoc)
  then have "(\<lambda>e. \<lparr>kv_key = fst e, kv_value = snd e\<rparr>) (k, v) \<in> set (kv_service_list pattern (kv_contents s0 (h @ [KvSet k v])))"
    unfolding kv_service_list_def set_map by (rule imageI)
  then show ?thesis by simp
qed

lemma complete_run_calls:
  "backend_calls (complete_run env cn jt jd file img uf ui parsed) =
     [FsUpload (Files [file]), FsUpload (Files [img]),
      KvSet (''resume:'' @ randomUUID env)
        (JSON_stringify (resume_data (randomUUID env) (path uf) (path ui) cn jt jd (JStr []))),
      AiChat (feedback_messages (path uf) (prepareInstructions env jt jd)) feedback_options None None,
      KvSet (''resume:'' @ randomUUID env)
        (JSON_stringify (resume_data (randomUUID env) (path uf) (path ui) cn jt jd parsed))]"
  "facade_calls (complete_run env cn jt jd file img uf ui parsed) =
     [Fs_upload (Files [file]), Fs_upload (Files [img]),
      Kv_set (''resume:'' @ randomUUID env)
        (JSON_stringify (resume_data (randomUUID env) (path uf) (path ui) cn jt jd (JStr []))),
      Ai_feedback (path uf) (prepareInstructions env jt jd),
      Kv_set (''resume:'' @ randomUUID env)
        (JSON_stringify (resume_data (randomUUID env) (path uf) (path ui) cn jt jd parsed))]"
  "convert_calls (complete_run env cn jt jd file img uf ui parsed) = [file]"
  by (simp_all add: complete_run_def Let_def)

lemma handleAnalyze_completed_world:
  assumes "handleAnalyze env cn jt jd file (ui, w) = (Returned (), ui', w')"
    and "statusText ui' = ''Analysis complete, redirecting...''"
  obtains p uploadedFile img uploadedImage resp ftxt parsed where
    "getPuter w = Some p"
    "fs_upload p (history w) (Files [file]) = Resolved (Some uploadedFile)"
    "fs_upload p (history w @ [FsUpload (Files [file])]) (Files [img]) = Resolved (Some uploadedImage)"
    "ai_chat p (history w @ [FsUpload (Files [file]), FsUpload (Files [img]),
                  KvSet (''resume:'' @ randomUUID env)
                    (JSON_stringify (resume_data (randomUUID env) (path uploadedFile) (path uploadedImage) cn jt jd (JStr [])))])
                (feedback_messages (path uploadedFile) (prepareInstructions env jt jd)) feedback_options None None
              = Resolved (Some resp)"
    "feedbackText resp = Inr ftxt"
    "JSON_parse (to_string ftxt) = Inr parsed"
    "w' = w\<lparr>trace := trace w @ complete_run env cn jt jd file img uploadedFile uploadedImage parsed\<rparr>"
proof -
  from assms obtain p uploadedFile img uploadedImage b1 resp ftxt parsed b2 where
    p: "getPuter w = Some p"
    and up1: "fs_upload p (history w) (Files [file]) = Resolved (Some uploadedFile)"
    and conv: "res_file (convertPdfToImage (fresh_url env) (render env) file) = Some img"
    and up2: "fs_upload p (history w @ [FsUpload (Files [file])]) (Files [img]) = Resolved (Some uploadedImage)"
    and kv1: "kv_set p (history w @ [FsUpload (Files [file]), FsUpload (Files [img])])
                (''resume:'' @ randomUUID env)
                (JSON_stringify (resume_data (randomUUID env) (path uploadedFile) (path uploadedImage) cn jt jd (JStr [])))
              = Resolved b1"
    and ai: "ai_chat p (history w @ [FsUpload (Files [file]), FsUpload (Files [img]),
                  KvSet (''resume:'' @ randomUUID env)
                    (JSON_stringify (resume_data (randomUUID env) (path uploadedFile) (path uploadedImage) cn jt jd (JStr [])))])
                (feedback_messages (path uploadedFile) (prepareInstructions env jt jd)) feedback_options None None
              = Resolved (Some resp)"
    and ft: "feedbackText resp = Inr ftxt"
    and pr: "JSON_parse (to_string ftxt) = Inr parsed"
    and kv2: "kv_set p (history w @ [FsUpload (Files [file]), FsUpload (Files [img]),
                  KvSet (''resume:'' @ randomUUID env)
                    (JSON_stringify (resume_data (randomUUID env) (path uploadedFile) (path uploadedImage) cn jt jd (JStr []))),
                  AiChat (feedback_messages (path uploadedFile) (prepareInstructions env jt jd)) feedback_options None None])
                (''resume:'' @ randomUUID env)
                (JSON_stringify (resume_data (randomUUID env) (path uploadedFile) (path uploadedImage) cn jt jd parsed))
              = Resolved b2"
    by (rule handleAnalyze_completeD)
  from handleAnalyze_complete[OF p up1 conv up2 kv1 ai ft pr kv2, of ui] assms(1)
  have w': "w' = w\<lparr>trace := trace w @ complete_run env cn jt jd file img uploadedFile uploadedImage parsed\<rparr>"
    by simp
  show ?thesis using that[OF p up1 up2 ai ft pr w'] .
qed

text \<open>
  Claim C1.  A run of \<open>handleAnalyze\<close> that goes through (it returns with the status
  "Analysis complete, redirecting...") issues, after the two uploads, exactly two
  key-value writes, both to the key \<open>resume:<uuid>\<close> of the identifier generated in this
  run.  The first stores the record with \<open>feedback\<close> equal to the empty string and comes
  before the AI call; the second stores the same record with \<open>feedback\<close> replaced by what
  \<open>JSON.parse\<close> gave for the AI's text.  After the first write the key-value service
  lists the entry under the pattern that \<open>Home.loadResumes\<close> asks for, and its value parses
  to the record without feedback.
\<close>

theorem handleAnalyze_writes_record_twice:
  assumes "handleAnalyze env cn jt jd file (ui, w) = (Returned (), ui', w')"
    and "statusText ui' = ''Analysis complete, redirecting...''"
  shows "\<exists>p uploadedFile img uploadedImage resp ftxt parsed.
           (let key = ''resume:'' @ randomUUID env;
                data = resume_data (randomUUID env) (path uploadedFile) (path uploadedImage) cn jt jd;
                first = JSON_stringify (data (JStr []));
                second = JSON_stringify (data parsed);
                ask = AiChat (feedback_messages (path uploadedFile) (prepareInstructions env jt jd))
                        feedback_options None None
            in getPuter w = Some p \<and>
               fs_upload p (history w) (Files [file]) = Resolved (Some uploadedFile) \<and>
               fs_upload p (history w @ [FsUpload (Files [file])]) (Files [img]) = Resolved (Some uploadedImage) \<and>
               respond p (history w @ [FsUpload (Files [file]), FsUpload (Files [img]), KvSet key first]) ask
                 = Resolved (ResponseValue resp) \<and>
               feedbackText resp = Inr ftxt \<and>
               JSON_parse (to_string ftxt) = Inr parsed \<and>
               history w' = history w @
                 [FsUpload (Files [file]), FsUpload (Files [img]), KvSet key first, ask, KvSet key second] \<and>
               facade_calls (trace w') = facade_calls (trace w) @
                 [Fs_upload (Files [file]), Fs_upload (Files [img]), Kv_set key first,
                  Ai_feedback (path uploadedFile) (prepareInstructions env jt jd), Kv_set key second] \<and>
               (\<forall>s0. \<lparr>kv_key = key, kv_value = first\<rparr> \<in> set (kv_service_list resumes_pattern
                        (kv_contents s0 (history w @ [FsUpload (Files [file]), FsUpload (Files [img]), KvSet key first])))) \<and>
               parsedResumes [\<lparr>kv_key = key, kv_value = first\<rparr>] = [Inr (data (JStr []))])"
proof -
  from assms obtain p uploadedFile img uploadedImage resp ftxt parsed where
    p: "getPuter w = Some p"
    and up1: "fs_upload p (history w) (Files [file]) = Resolved (Some uploadedFile)"
    and up2: "fs_upload p (history w @ [FsUpload (Files [file])]) (Files [img]) = Resolved (Some uploadedImage)"
    and ai: "ai_chat p (history w @ [FsUpload (Files [file]), FsUpload (Files [img]),
                  KvSet (''resume:'' @ randomUUID env)
                    (JSON_stringify (resume_data (randomUUID env) (path uploadedFile) (path uploadedImage) cn jt jd (JStr [])))])
                (feedback_messages (path uploadedFile) (prepareInstructions env jt jd)) feedback_options None None
              = Resolved (Some resp)"
    and ft: "feedbackText resp = Inr ftxt"
    and pr: "JSON_parse (to_string ftxt) = Inr parsed"
    and w': "w' = w\<lparr>trace := trace w @ complete_run env cn jt jd file img uploadedFile uploadedImage parsed\<rparr>"
    by (rule handleAnalyze_completed_world)
  let ?key = "''resume:'' @ randomUUID env"
  let ?data = "resume_data (randomUUID env) (path uploadedFile) (path uploadedImage) cn jt jd"
  have h: "history w' = history w @ backend_calls (complete_run env cn jt jd file img uploadedFile uploadedImage parsed)"
    by (simp add: w' history_def backend_calls_append)
  have f: "facade_calls (trace w') = facade_calls (trace w) @
             facade_calls (complete_run env cn jt jd file img uploadedFile uploadedImage parsed)"
    by (simp add: w' facade_calls_append)
  have l: "\<lparr>kv_key = ?key, kv_value = JSON_stringify (?data (JStr []))\<rparr> \<in> set (kv_service_list resumes_pattern
              (kv_contents s0 (history w @ [FsUpload (Files [file]), FsUpload (Files [img]),
                 KvSet ?key (JSON_stringify (?data (JStr [])))])))" for s0
    using listed_after_set[OF glob_match_resumes, of "randomUUID env" "JSON_stringify (?data (JStr []))" s0
        "history w @ [FsUpload (Files [file]), FsUpload (Files [img])]"]
    by simp
  have r: "parsedResumes [\<lparr>kv_key = ?key, kv_value = JSON_stringify (?data (JStr []))\<rparr>] = [Inr (?data (JStr []))]"
    by (simp add: parsedResumes_def resume_data_roundtrip)
  have a: "respond p (history w @ [FsUpload (Files [file]), FsUpload (Files [img]),
              KvSet ?key (JSON_stringify (?data (JStr [])))])
             (AiChat (feedback_messages (path uploadedFile) (prepareInstructions env jt jd)) feedback_options None None)
           = Resolved (ResponseValue resp)"
    using ai by (simp add: settled_js_def)
  show ?thesis
    unfolding Let_def
    using p up1 up2 a ft pr h f l r by (intro exI conjI allI) (simp_all add: complete_run_calls)
qed


lemma answering_puter_simps:
  "fs_upload (answering_puter c) h (Files (f # fs)) =
     Resolved (Some \<lparr>item_id = ''1'', item_name = ''upload'', path = ''/uploads/'' @ name f\<rparr>)"
  "kv_set (answering_puter c) h k v = Resolved True"
  "ai_chat (answering_puter c) h pr a t opts =
     Resolved (Some \<lparr>message = \<lparr>role = ''assistant'', content = Text (JSON_stringify c)\<rparr>\<rparr>)"
  by (simp_all add: answering_puter_def)

lemma sample_conversion:
  "res_file (convertPdfToImage (fresh_url sample_env) (render sample_env) sample_pdf)
     = Some \<lparr>name = ''cv.png'', ftype = ''image/png'', bytes = ''png-bytes''\<rparr>"
  by (simp add: sample_env_def sample_pdf_def convertPdfToImage_def replace_pdf_ext_def matches_pdf_ext_def)

lemma js_value_samples: "js_value sample_feedback" "js_value overscored_feedback"
  by (simp_all add: sample_feedback_def overscored_feedback_def numeric_key_def is_digit_def)

lemma sample_run:
  assumes "js_value c"
  shows "sample_run_of c
         = (Returned (),
            idle_ui\<lparr>isProcessing := True, statusText := ''Analysis complete, redirecting...''\<rparr>,
            (fresh_world (Some (answering_puter c)))
              \<lparr>trace := trace (fresh_world (Some (answering_puter c))) @
                 complete_run sample_env ''Acme'' ''Engineer'' ''Build things'' sample_pdf
                   \<lparr>name = ''cv.png'', ftype = ''image/png'', bytes = ''png-bytes''\<rparr>
                   \<lparr>item_id = ''1'', item_name = ''upload'', path = ''/uploads/cv.pdf''\<rparr>
                   \<lparr>item_id = ''1'', item_name = ''upload'', path = ''/uploads/cv.png''\<rparr> c\<rparr>)"
  unfolding sample_run_of_def
proof (rule handleAnalyze_complete)
  show "getPuter (fresh_world (Some (answering_puter c))) = Some (answering_puter c)"
    by (simp add: fresh_world_def getPuter_def)
  show "res_file (convertPdfToImage (fresh_url sample_env) (render sample_env) sample_pdf)
     = Some \<lparr>name = ''cv.png'', ftype = ''image/png'', bytes = ''png-bytes''\<rparr>"
    by (rule sample_conversion)
  show "feedbackText \<lparr>message = \<lparr>role = ''assistant'', content = Text (JSON_stringify c)\<rparr>\<rparr>
          = Inr (Some (JSON_stringify c))"
    by (simp add: feedbackText_def)
  show "JSON_parse (to_string (Some (JSON_stringify c))) = Inr c"
    using assms by (simp add: to_string_def JSON_roundtrip)
qed (simp_all add: answering_puter_simps sample_pdf_def)

lemma sample_run_history:
  assumes "js_value c"
  shows "history (snd (snd (sample_run_of c))) =
       [FsUpload (Files [sample_pdf]),
        FsUpload (Files [\<lparr>name = ''cv.png'', ftype = ''image/png'', bytes = ''png-bytes''\<rparr>]),
        KvSet ''resume:0b0e7a52'' (JSON_stringify (resume_data ''0b0e7a52'' ''/uploads/cv.pdf'' ''/uploads/cv.png''
           ''Acme'' ''Engineer'' ''Build things'' (JStr []))),
        AiChat (feedback_messages ''/uploads/cv.pdf'' ''Engineer: Build things'') feedback_options None None,
        KvSet ''resume:0b0e7a52'' (JSON_stringify (resume_data ''0b0e7a52'' ''/uploads/cv.pdf'' ''/uploads/cv.png''
           ''Acme'' ''Engineer'' ''Build things'' c))]"
  by (simp add: sample_run[OF assms] history_def backend_calls_append complete_run_calls fresh_world_def
      sample_env_def)

theorem handleAnalyze_writes_record_twice_witness:
  "fst (sample_run_of sample_feedback) = Returned () \<and>
   statusText (fst (snd (sample_run_of sample_feedback))) = ''Analysis complete, redirecting...'' \<and>
   history (snd (snd (sample_run_of sample_feedback))) =
       [FsUpload (Files [sample_pdf]),
        FsUpload (Files [\<lparr>name = ''cv.png'', ftype = ''image/png'', bytes = ''png-bytes''\<rparr>]),
        KvSet ''resume:0b0e7a52'' (JSON_stringify (resume_data ''0b0e7a52'' ''/uploads/cv.pdf'' ''/uploads/cv.png''
           ''Acme'' ''Engineer'' ''Build things'' (JStr []))),
        AiChat (feedback_messages ''/uploads/cv.pdf'' ''Engineer: Build things'') feedback_options None None,
        KvSet ''resume:0b0e7a52'' (JSON_stringify (resume_data ''0b0e7a52'' ''/uploads/cv.pdf'' ''/uploads/cv.png''
           ''Acme'' ''Engineer'' ''Build things'' sample_feedback))]"
proof -
  note run = sample_run[OF js_value_samples(1), unfolded sample_run_of_def]
  have fin: "statusText (idle_ui\<lparr>isProcessing := True, statusText := ''Analysis complete, redirecting...''\<rparr>)
               = ''Analysis complete, redirecting...''" by simp
  from handleAnalyze_writes_record_twice[OF run fin]
  show ?thesis
    by (simp add: sample_run_history[OF js_value_samples(1)]) (simp add: sample_run[OF js_value_samples(1)])
qed

text \<open>
  Claim C7.  When the first step's \<open>fs.upload\<close> returns no handle -- because the backend
  resolved the upload without one, or because \<open>window.puter\<close> is absent -- the run
  returns with the status "Error: Failed to upload file".  The whole run is then the
  upload itself: its trace is the one facade call, followed by the one backend call
  when the backend is there.  So the document converter is not invoked, there is no
  further facade call, nothing is navigated to, and the world is the one the upload
  left.
\<close>

theorem handleAnalyze_stops_when_upload_fails:
  assumes "fst (upload (Files [file]) w) = Resolved None"
  shows "fst (handleAnalyze env cn jt jd file (ui, w)) = Returned () \<and>
         statusText (fst (snd (handleAnalyze env cn jt jd file (ui, w)))) = ''Error: Failed to upload file'' \<and>
         snd (snd (handleAnalyze env cn jt jd file (ui, w))) = snd (upload (Files [file]) w) \<and>
         trace (snd (snd (handleAnalyze env cn jt jd file (ui, w))))
           = trace w @ Facade (Fs_upload (Files [file])) #
               (case getPuter w of None \<Rightarrow> [] | Some p \<Rightarrow> [Backend (FsUpload (Files [file]))]) \<and>
         convert_calls (trace (snd (snd (handleAnalyze env cn jt jd file (ui, w))))) = convert_calls (trace w) \<and>
         facade_calls (trace (snd (snd (handleAnalyze env cn jt jd file (ui, w)))))
           = facade_calls (trace w) @ [Fs_upload (Files [file])] \<and>
         history (snd (snd (handleAnalyze env cn jt jd file (ui, w))))
           = history w @ (case getPuter w of None \<Rightarrow> [] | Some p \<Rightarrow> [FsUpload (Files [file])])"
proof -
  obtain w1 where u: "upload (Files [file]) w = (Resolved None, w1)"
    using assms by (cases "upload (Files [file]) w") simp
  have run: "handleAnalyze env cn jt jd file (ui, w)
               = (Returned (), ui\<lparr>isProcessing := True, statusText := ''Error: Failed to upload file''\<rparr>, w1)"
    by (simp add: handleAnalyze_def Let_def u)
  have t: "trace w1 = trace w @ Facade (Fs_upload (Files [file])) #
             (case getPuter w of None \<Rightarrow> [] | Some p \<Rightarrow> [Backend (FsUpload (Files [file]))])"
  proof (cases "getPuter w")
    case None
    from u have "w1 = setError ''Puter.js not available'' (log (Facade (Fs_upload (Files [file]))) w)"
      by (simp add: upload_unavailable[OF None])
    then show ?thesis using None by (simp add: setError_simps log_simps)
  next
    case (Some p)
    from u have "w1 = log (Backend (FsUpload (Files [file]))) (log (Facade (Fs_upload (Files [file]))) w)"
      by (simp add: upload_available[OF Some])
    then show ?thesis using Some by (simp add: log_simps)
  qed
  have c: "convert_calls (trace w1) = convert_calls (trace w)"
    unfolding t by (cases "getPuter w") (simp_all add: convert_calls_append)
  have f: "facade_calls (trace w1) = facade_calls (trace w) @ [Fs_upload (Files [file])]"
    unfolding t by (cases "getPuter w") (simp_all add: facade_calls_append)
  have h: "history w1 = history w @ (case getPuter w of None \<Rightarrow> [] | Some p \<Rightarrow> [FsUpload (Files [file])])"
    unfolding history_def t by (cases "getPuter w") (simp_all add: backend_calls_append)
  show ?thesis
    unfolding run using t c f h by (simp add: u)
qed

text \<open>
  The run against a backend that is there and whose upload resolves without a handle:
  one backend call, no error in the store, and the converter not invoked.
\<close>

theorem handleAnalyze_stops_when_upload_fails_witness:
  "fst (upload (Files [sample_pdf]) (fresh_world (Some handleless_puter))) = Resolved None \<and>
   handleAnalyze sample_env ''Acme'' ''Engineer'' ''Build things'' sample_pdf
       (idle_ui, fresh_world (Some handleless_puter))
     = (Returned (),
        \<lparr>isProcessing = True, statusText = ''Error: Failed to upload file''\<rparr>,
        (fresh_world (Some handleless_puter))
          \<lparr>trace := [Facade (Fs_upload (Files [sample_pdf])), Backend (FsUpload (Files [sample_pdf]))]\<rparr>) \<and>
   convert_calls (trace (snd (snd (handleAnalyze sample_env ''Acme'' ''Engineer'' ''Build things'' sample_pdf
      (idle_ui, fresh_world (Some handleless_puter)))))) = [] \<and>
   history (snd (snd (handleAnalyze sample_env ''Acme'' ''Engineer'' ''Build things'' sample_pdf
      (idle_ui, fresh_world (Some handleless_puter))))) = [FsUpload (Files [sample_pdf])] \<and>
   error (store (snd (snd (handleAnalyze sample_env ''Acme'' ''Engineer'' ''Build things'' sample_pdf
      (idle_ui, fresh_world (Some handleless_puter)))))) = None"
proof -
  have g: "getPuter (fresh_world (Some handleless_puter)) = Some handleless_puter"
    by (simp add: fresh_world_def getPuter_def)
  have r: "fs_upload handleless_puter h (Files [sample_pdf]) = Resolved None" for h
    by (simp add: handleless_puter_def)
  have u: "fst (upload (Files [sample_pdf]) (fresh_world (Some handleless_puter))) = Resolved None"
    by (simp add: upload_available[OF g] r)
  have w1: "snd (upload (Files [sample_pdf]) (fresh_world (Some handleless_puter)))
              = (fresh_world (Some handleless_puter))
                  \<lparr>trace := [Facade (Fs_upload (Files [sample_pdf])), Backend (FsUpload (Files [sample_pdf]))]\<rparr>"
    unfolding upload_available[OF g] by (simp add: log_def fresh_world_def)
  have t: "trace (fresh_world (Some handleless_puter)) = []" by (simp add: fresh_world_def)
  have hw: "history (fresh_world (Some handleless_puter)) = []" by (simp add: fresh_world_def history_def)
  have e: "error (store (fresh_world (Some handleless_puter))) = None"
    by (simp add: fresh_world_def initial_store_def)
  have run: "handleAnalyze sample_env ''Acme'' ''Engineer'' ''Build things'' sample_pdf
                 (idle_ui, fresh_world (Some handleless_puter))
               = (Returned (), \<lparr>isProcessing = True, statusText = ''Error: Failed to upload file''\<rparr>,
                  snd (upload (Files [sample_pdf]) (fresh_world (Some handleless_puter))))"
    by (simp add: handleAnalyze_def Let_def upload_available[OF g] r idle_ui_def)
  from handleAnalyze_stops_when_upload_fails[OF u, of sample_env "''Acme''" "''Engineer''" "''Build things''" idle_ui]
  show ?thesis
    using u by (simp add: g t hw) (simp add: run w1 e)
qed

text \<open>
  The same run when \<open>window.puter\<close> is absent: the facade's guard answers, no backend
  call is made, and the store holds the error of the guard.
\<close>

lemma handleAnalyze_upload_guard_run:
  "handleAnalyze sample_env ''Acme'' ''Engineer'' ''Build things'' sample_pdf (idle_ui, fresh_world None)
     = (Returned (),
        \<lparr>isProcessing = True, statusText = ''Error: Failed to upload file''\<rparr>,
        setError ''Puter.js not available'' (log (Facade (Fs_upload (Files [sample_pdf]))) (fresh_world None)))"
proof -
  have n: "getPuter (fresh_world None) = None" by (simp add: fresh_world_def getPuter_def)
  show ?thesis by (simp add: handleAnalyze_def upload_unavailable[OF n] Let_def idle_ui_def)
qed

text \<open>
  Claim C3, as amended.  In a run that goes through, the record of the second write
  carries as \<open>feedback\<close> exactly the value that \<open>JSON.parse\<close> returned for the AI's text:
  nothing is validated or clamped.  So the overall score and the five category scores
  of the stored record are numbers between 0 and 100 exactly when the AI's text has them
  so.
\<close>

theorem handleAnalyze_stores_scores_verbatim:
  assumes "handleAnalyze env cn jt jd file (ui, w) = (Returned (), ui', w')"
    and "statusText ui' = ''Analysis complete, redirecting...''"
  shows "\<exists>p resp ftxt parsed stored.
           getPuter w = Some p \<and>
           respond p (butlast (butlast (history w'))) (last (butlast (history w'))) = Resolved (ResponseValue resp) \<and>
           feedbackText resp = Inr ftxt \<and>
           JSON_parse (to_string ftxt) = Inr parsed \<and>
           last (history w') = KvSet (''resume:'' @ randomUUID env) (JSON_stringify stored) \<and>
           get_property stored ''feedback'' = Some parsed \<and>
           feedback_scores (the (get_property stored ''feedback'')) = feedback_scores parsed \<and>
           (scores_in_range (the (get_property stored ''feedback'')) \<longleftrightarrow> scores_in_range parsed)"
proof -
  from assms obtain p and uploadedFile :: FSItem and img and uploadedImage :: FSItem and resp ftxt parsed where
    p: "getPuter w = Some p"
    and ai: "ai_chat p (history w @ [FsUpload (Files [file]), FsUpload (Files [img]),
                  KvSet (''resume:'' @ randomUUID env)
                    (JSON_stringify (resume_data (randomUUID env) (path uploadedFile) (path uploadedImage) cn jt jd (JStr [])))])
                (feedback_messages (path uploadedFile) (prepareInstructions env jt jd)) feedback_options None None
              = Resolved (Some resp)"
    and ft: "feedbackText resp = Inr ftxt"
    and pr: "JSON_parse (to_string ftxt) = Inr parsed"
    and w': "w' = w\<lparr>trace := trace w @ complete_run env cn jt jd file img uploadedFile uploadedImage parsed\<rparr>"
    by (rule handleAnalyze_completed_world)
  have h: "history w' = history w @
              [FsUpload (Files [file]), FsUpload (Files [img]),
               KvSet (''resume:'' @ randomUUID env)
                 (JSON_stringify (resume_data (randomUUID env) (path uploadedFile) (path uploadedImage) cn jt jd (JStr []))),
               AiChat (feedback_messages (path uploadedFile) (prepareInstructions env jt jd)) feedback_options None None,
               KvSet (''resume:'' @ randomUUID env)
                 (JSON_stringify (resume_data (randomUUID env) (path uploadedFile) (path uploadedImage) cn jt jd parsed))]"
    by (simp add: w' history_def backend_calls_append complete_run_calls)
  have a: "respond p (history w @ [FsUpload (Files [file]), FsUpload (Files [img]),
              KvSet (''resume:'' @ randomUUID env)
                (JSON_stringify (resume_data (randomUUID env) (path uploadedFile) (path uploadedImage) cn jt jd (JStr [])))])
             (AiChat (feedback_messages (path uploadedFile) (prepareInstructions env jt jd)) feedback_options None None)
           = Resolved (ResponseValue resp)"
    using ai by (simp add: settled_js_def)
  let ?stored = "resume_data (randomUUID env) (path uploadedFile) (path uploadedImage) cn jt jd parsed"
  have l: "last (history w') = KvSet (''resume:'' @ randomUUID env) (JSON_stringify ?stored)"
    by (simp add: h)
  have b: "last (butlast (history w')) =
             AiChat (feedback_messages (path uploadedFile) (prepareInstructions env jt jd)) feedback_options None None"
    by (simp add: h butlast_append)
  have bb: "butlast (butlast (history w')) = history w @ [FsUpload (Files [file]), FsUpload (Files [img]),
              KvSet (''resume:'' @ randomUUID env)
                (JSON_stringify (resume_data (randomUUID env) (path uploadedFile) (path uploadedImage) cn jt jd (JStr [])))]"
    by (simp add: h butlast_append)
  show ?thesis
    using p a ft pr l b bb get_property_feedback[of "randomUUID env" "path uploadedFile" "path uploadedImage" cn jt jd parsed]
    by (intro exI[of _ p] exI[of _ resp] exI[of _ ftxt] exI[of _ parsed] exI[of _ ?stored]) simp
qed

lemma scores_in_range_sample: "scores_in_range sample_feedback"
  by (simp add: scores_in_range_def feedback_scores_def valid_score_def get_property_def sample_feedback_def)

lemma overscored: "get_property overscored_feedback ''overallScore'' = Some (JNum 150)"
  "\<not> scores_in_range overscored_feedback"
  by (simp_all add: scores_in_range_def feedback_scores_def valid_score_def get_property_def
      overscored_feedback_def)

theorem handleAnalyze_stores_scores_verbatim_witness:
  "fst (sample_run_of sample_feedback) = Returned () \<and>
   statusText (fst (snd (sample_run_of sample_feedback))) = ''Analysis complete, redirecting...'' \<and>
   last (history (snd (snd (sample_run_of sample_feedback)))) =
     KvSet ''resume:0b0e7a52'' (JSON_stringify (resume_data ''0b0e7a52'' ''/uploads/cv.pdf'' ''/uploads/cv.png''
        ''Acme'' ''Engineer'' ''Build things'' sample_feedback)) \<and>
   scores_in_range sample_feedback"
proof -
  note run = sample_run[OF js_value_samples(1), unfolded sample_run_of_def]
  have fin: "statusText (idle_ui\<lparr>isProcessing := True, statusText := ''Analysis complete, redirecting...''\<rparr>)
               = ''Analysis complete, redirecting...''" by simp
  from handleAnalyze_stores_scores_verbatim[OF run fin]
  show ?thesis
    by (simp add: sample_run_history[OF js_value_samples(1)] scores_in_range_sample)
       (simp add: sample_run[OF js_value_samples(1)])
qed

theorem handleAnalyze_scores_counterexample:
  "fst (sample_run_of overscored_feedback) = Returned () \<and>
   statusText (fst (snd (sample_run_of overscored_feedback))) = ''Analysis complete, redirecting...'' \<and>
   last (history (snd (snd (sample_run_of overscored_feedback)))) =
     KvSet ''resume:0b0e7a52'' (JSON_stringify (resume_data ''0b0e7a52'' ''/uploads/cv.pdf'' ''/uploads/cv.png''
        ''Acme'' ''Engineer'' ''Build things'' overscored_feedback)) \<and>
   get_property (resume_data ''0b0e7a52'' ''/uploads/cv.pdf'' ''/uploads/cv.png''
        ''Acme'' ''Engineer'' ''Build things'' overscored_feedback) ''feedback'' = Some overscored_feedback \<and>
   get_property overscored_feedback ''overallScore'' = Some (JNum 150) \<and>
   \<not> scores_in_range overscored_feedback"
  by (simp add: sample_run_history[OF js_value_samples(2)] overscored get_property_feedback)
     (simp add: sample_run[OF js_value_samples(2)])

text \<open>
  Claim C9.  The record written by the pipeline, in either state, survives the round
  trip through its storage form: \<open>JSON.parse(JSON.stringify(data))\<close> is \<open>data\<close> again, so
  every field reads as before.  This holds with \<open>feedback\<close> the empty string and with
  \<open>feedback\<close> any JSON value of the model (objects with distinct non-numeric keys, numbers
  that are safe integers).
\<close>

theorem resume_record_roundtrip:
  "JSON_parse (JSON_stringify (resume_data i rp ip cn jt jd (JStr [])))
     = Inr (resume_data i rp ip cn jt jd (JStr [])) \<and>
   (js_value fb \<longrightarrow>
      JSON_parse (JSON_stringify (resume_data i rp ip cn jt jd fb)) = Inr (resume_data i rp ip cn jt jd fb) \<and>
      get_property (resume_data i rp ip cn jt jd fb) ''feedback'' = Some fb)"
proof (intro conjI impI)
  have empty: "js_value (JStr [])" by simp
  show "JSON_parse (JSON_stringify (resume_data i rp ip cn jt jd (JStr [])))
          = Inr (resume_data i rp ip cn jt jd (JStr []))"
    using empty by (rule resume_data_roundtrip)
next
  assume "js_value fb"
  then show "JSON_parse (JSON_stringify (resume_data i rp ip cn jt jd fb)) = Inr (resume_data i rp ip cn jt jd fb)"
    by (rule resume_data_roundtrip)
next
  show "get_property (resume_data i rp ip cn jt jd fb) ''feedback'' = Some fb"
    by (rule get_property_feedback)
qed

theorem resume_record_roundtrip_witness:
  "js_value sample_feedback \<and>
   JSON_parse (JSON_stringify (resume_data ''0b0e7a52'' ''/uploads/cv.pdf'' ''/uploads/cv.png''
       ''Acme'' ''Engineer'' ''Build things'' sample_feedback))
     = Inr (resume_data ''0b0e7a52'' ''/uploads/cv.pdf'' ''/uploads/cv.png''
       ''Acme'' ''Engineer'' ''Build things'' sample_feedback)"
  using resume_record_roundtrip [of "''0b0e7a52''" "''/uploads/cv.pdf''" "''/uploads/cv.png''"
      "''Acme''" "''Engineer''" "''Build things''" sample_feedback]
  by (simp add: js_value_samples)

end
